theory Spec2Isabelle
  imports Complex_Main
begin

section \<open>Comic image processor: a shallow embedding of \<open>src/utils/image_processor.py\<close>\<close>

text \<open>
  The program is a thin layer of Python over three collaborators: the Pillow imaging
  library, \<open>pathlib\<close>/\<open>os.path\<close> and the file system. The embedding keeps the
  program's own control flow, arithmetic and path bookkeeping as executable HOL
  functions. What the collaborators decide on their own (whether a save or a resize is
  rejected, what a directory holds, how large an encoded file is) is a parameter of the
  model, the record \<open>env\<close>. Every call into a collaborator is recorded, together with
  its outcome, in the trace of the world, so that statements about order ("before"),
  about arguments ("at quality 90") and about what was written can be made about the
  trace.

  Left out: the command line (\<open>main\<close>), and the release of the image handle at the
  end of the \<open>with\<close> block, which changes nothing that the model observes.
\<close>

subsection \<open>Exceptions\<close>

text \<open>
  The exceptions that can travel through the program. All of them are subclasses of
  Python's \<open>Exception\<close>, which is what \<open>batch_optimize\<close> catches. \<open>OSError\<close> stands
  for the errors of the file system and of the decoder (\<open>FileNotFoundError\<close> and
  Pillow's \<open>UnidentifiedImageError\<close> are subclasses of it); its argument names the
  subclass. \<open>LibraryError\<close> is any other exception the environment lets a library call
  raise.
\<close>

datatype py_error =
    RuntimeError string
  | ZeroDivisionError
  | OverflowError
  | OSError string
  | LibraryError string

subsection \<open>Python floats\<close>

text \<open>
  \<open>max_width / original_width\<close> divides two Python integers into a float, and
  \<open>original_width * resize_ratio\<close> multiplies an integer by a float: both round to
  IEEE 754 binary64, to nearest with ties to even. A finite float is modelled by the
  real number it denotes; \<open>round_binary64\<close> is the rounding of an exact real result
  to the nearest binary64 value with unbounded exponent range above (overflow is
  checked by \<open>binary64\<close>) and gradual underflow below (the exponent of the last
  place never goes below \<open>-1074\<close>).
\<close>

fun bit_length :: "nat \<Rightarrow> nat" where
  "bit_length n = (if n = 0 then 0 else Suc (bit_length (n div 2)))"

declare bit_length.simps [simp del]

text \<open>\<open>ilog2 x\<close> is \<open>\<lfloor>log\<^sub>2 x\<rfloor>\<close> for a positive \<open>x\<close>, computed from bit lengths.\<close>

definition ilog2 :: "real \<Rightarrow> int" where
  "ilog2 x = (if 1 \<le> x then int (bit_length (nat \<lfloor>x\<rfloor>)) - 1
              else - int (bit_length (nat (\<lceil>1 / x\<rceil> - 1))))"

definition round_half_even :: "real \<Rightarrow> int" where
  "round_half_even x =
     (let f = \<lfloor>x\<rfloor>; d = x - of_int f
      in if d < 1 / 2 then f
         else if 1 / 2 < d then f + 1
         else if even f then f else f + 1)"

text \<open>The exponent of the unit in the last place of the binary64 values around \<open>x\<close>.\<close>

definition float_exponent :: "real \<Rightarrow> int" where
  "float_exponent x = max (ilog2 \<bar>x\<bar> - 52) (- 1074)"

definition round_binary64 :: "real \<Rightarrow> real" where
  "round_binary64 x =
     (if x = 0 then 0
      else of_int (round_half_even (x / 2 powi float_exponent x)) * 2 powi float_exponent x)"

text \<open>A rounded result whose magnitude reaches \<open>2 ^ 1024\<close> is not a finite float.\<close>

definition binary64 :: "real \<Rightarrow> real option" where
  "binary64 x = (let y = round_binary64 x in if \<bar>y\<bar> < 2 ^ 1024 then Some y else None)"

text \<open>
  \<open>a / b\<close> on two \<open>int\<close>s: the correctly rounded quotient; \<open>ZeroDivisionError\<close> for a
  zero divisor, \<open>OverflowError\<close> when the quotient is too large for a float.
\<close>

definition int_true_div :: "int \<Rightarrow> int \<Rightarrow> py_error + real" where
  "int_true_div a b =
     (if b = 0 then Inl ZeroDivisionError
      else case binary64 (of_int a / of_int b) of
             None \<Rightarrow> Inl OverflowError
           | Some q \<Rightarrow> Inr q)"

text \<open>
  \<open>n * x\<close> on an \<open>int\<close> and a \<open>float\<close>: the integer is converted to a float first
  (\<open>OverflowError\<close> when it is too large), then the two floats are multiplied. A
  product that overflows is an infinity, which is not an error yet.
\<close>

datatype py_float = Finite real | Infinity

definition float_of_int :: "int \<Rightarrow> py_error + real" where
  "float_of_int n = (case binary64 (of_int n) of None \<Rightarrow> Inl OverflowError | Some x \<Rightarrow> Inr x)"

definition float_mul :: "real \<Rightarrow> real \<Rightarrow> py_float" where
  "float_mul x y = (case binary64 (x * y) of None \<Rightarrow> Infinity | Some z \<Rightarrow> Finite z)"

definition int_mul_float :: "int \<Rightarrow> real \<Rightarrow> py_error + py_float" where
  "int_mul_float n x = (case float_of_int n of Inl e \<Rightarrow> Inl e | Inr y \<Rightarrow> Inr (float_mul y x))"

text \<open>\<open>int(x)\<close> on a float truncates towards zero; an infinity raises \<open>OverflowError\<close>.\<close>

definition int_of_float :: "py_float \<Rightarrow> py_error + int" where
  "int_of_float x =
     (case x of
        Infinity \<Rightarrow> Inl OverflowError
      | Finite y \<Rightarrow> Inr (if 0 \<le> y then \<lfloor>y\<rfloor> else \<lceil>y\<rceil>))"

subsection \<open>The processing policy and the resize arithmetic\<close>

text \<open>The fields of a \<open>ComicImageProcessor\<close> instance, with the constructor's defaults.\<close>

record policy =
  max_width :: int
  max_height :: int
  quality :: int

definition default_policy :: policy where
  "default_policy = \<lparr>max_width = 1200, max_height = 1800, quality = 85\<rparr>"

text \<open>
  Lines 69 to 72 of \<open>optimize_image\<close>: the two ratios and their minimum with \<open>1.0\<close>.
\<close>

definition resize_ratio :: "policy \<Rightarrow> int \<times> int \<Rightarrow> py_error + real" where
  "resize_ratio self sz =
     (case int_true_div (max_width self) (fst sz) of
        Inl e \<Rightarrow> Inl e
      | Inr width_ratio \<Rightarrow>
          (case int_true_div (max_height self) (snd sz) of
             Inl e \<Rightarrow> Inl e
           | Inr height_ratio \<Rightarrow> Inr (min width_ratio (min height_ratio 1))))"

text \<open>
  Lines 74 to 76: the size handed to the resize step, \<open>None\<close> when the ratio is not
  below \<open>1.0\<close> and the image is left as it is.
\<close>

definition new_size :: "policy \<Rightarrow> int \<times> int \<Rightarrow> py_error + (int \<times> int) option" where
  "new_size self sz =
     (case resize_ratio self sz of
        Inl e \<Rightarrow> Inl e
      | Inr r \<Rightarrow>
          if r < 1 then
            (case int_mul_float (fst sz) r of
               Inl e \<Rightarrow> Inl e
             | Inr pw \<Rightarrow>
                 (case int_of_float pw of
                    Inl e \<Rightarrow> Inl e
                  | Inr new_width \<Rightarrow>
                      (case int_mul_float (snd sz) r of
                         Inl e \<Rightarrow> Inl e
                       | Inr ph \<Rightarrow>
                           (case int_of_float ph of
                              Inl e \<Rightarrow> Inl e
                            | Inr new_height \<Rightarrow> Inr (Some (new_width, new_height))))))
          else Inr None)"

subsection \<open>Strings and paths\<close>

text \<open>
  The program builds its paths with \<open>pathlib.Path\<close> and \<open>os.path.join\<close>. Both are
  modelled in their POSIX flavour, on strings as lists of characters: \<open>split_on\<close> is
  \<open>str.split\<close> with a separator, \<open>join_with\<close> is \<open>str.join\<close>, \<open>rfind\<close> is
  \<open>str.rfind\<close> for one character and \<open>lower\<close> is \<open>str.lower\<close> on ASCII letters
  (a character outside ASCII is a sequence of bytes here and is left as it is; no such
  character lowers to a letter of the supported extensions).
\<close>

type_synonym path = string

fun split_on :: "char \<Rightarrow> string \<Rightarrow> string list" where
  "split_on c [] = [[]]"
| "split_on c (x # xs) =
     (if x = c then [] # split_on c xs
      else case split_on c xs of
             [] \<Rightarrow> [[x]]
           | y # ys \<Rightarrow> (x # y) # ys)"

fun join_with :: "string \<Rightarrow> string list \<Rightarrow> string" where
  "join_with sep [] = []"
| "join_with sep [x] = x"
| "join_with sep (x # y # ys) = x @ sep @ join_with sep (y # ys)"

fun rfind :: "char \<Rightarrow> string \<Rightarrow> nat option" where
  "rfind c [] = None"
| "rfind c (x # xs) =
     (case rfind c xs of
        Some i \<Rightarrow> Some (Suc i)
      | None \<Rightarrow> if x = c then Some 0 else None)"

definition ascii_lower :: "char \<Rightarrow> char" where
  "ascii_lower c =
     (case map_of (zip ''ABCDEFGHIJKLMNOPQRSTUVWXYZ'' ''abcdefghijklmnopqrstuvwxyz'') c of
        None \<Rightarrow> c
      | Some l \<Rightarrow> l)"

definition lower :: "string \<Rightarrow> string" where
  "lower s = map ascii_lower s"

text \<open>
  A \<open>PurePosixPath\<close>: its root (empty, one slash, or two slashes for exactly two
  leading slashes) and its parts. Parsing drops empty components and single dots.
\<close>

record pure_path =
  p_root :: string
  p_parts :: "string list"

definition path_root :: "string \<Rightarrow> string" where
  "path_root s =
     (let n = length (takeWhile (\<lambda>c. c = CHR ''/'') s)
      in if n = 0 then [] else if n = 2 then ''//'' else ''/'')"

definition Path :: "string \<Rightarrow> pure_path" where
  "Path s = \<lparr>p_root = path_root s,
            p_parts = filter (\<lambda>x. x \<noteq> [] \<and> x \<noteq> ''.'') (split_on CHR ''/'' s)\<rparr>"

definition path_str :: "pure_path \<Rightarrow> string" where
  "path_str p =
     (if p_root p = [] \<and> p_parts p = [] then ''.''
      else p_root p @ join_with ''/'' (p_parts p))"

definition path_name :: "pure_path \<Rightarrow> string" where
  "path_name p = (if p_parts p = [] then [] else last (p_parts p))"

text \<open>
  \<open>suffix\<close> and \<open>stem\<close> split the name at its last dot, unless that dot is the first
  or the last character of the name (the rule of Python 3.7 to 3.13; the names that
  \<open>batch_optimize\<close> selects split in the same way under the later rule).
\<close>

definition name_suffix :: "string \<Rightarrow> string" where
  "name_suffix name =
     (case rfind CHR ''.'' name of
        None \<Rightarrow> []
      | Some i \<Rightarrow> if 0 < i \<and> i < length name - 1 then drop i name else [])"

definition name_stem :: "string \<Rightarrow> string" where
  "name_stem name =
     (case rfind CHR ''.'' name of
        None \<Rightarrow> name
      | Some i \<Rightarrow> if 0 < i \<and> i < length name - 1 then take i name else name)"

definition path_suffix :: "pure_path \<Rightarrow> string" where
  "path_suffix p = name_suffix (path_name p)"

definition path_stem :: "pure_path \<Rightarrow> string" where
  "path_stem p = name_stem (path_name p)"

definition path_parent :: "pure_path \<Rightarrow> pure_path" where
  "path_parent p = p\<lparr>p_parts := butlast (p_parts p)\<rparr>"

text \<open>The operator \<open>/\<close> of \<open>pathlib\<close>: an absolute right operand replaces the left one.\<close>

definition path_div :: "pure_path \<Rightarrow> string \<Rightarrow> pure_path" where
  "path_div p s =
     (let q = Path s
      in if p_root q \<noteq> [] then q
         else \<lparr>p_root = p_root p, p_parts = p_parts p @ p_parts q\<rparr>)"

text \<open>The paths \<open>iterdir\<close> yields: the directory's path with the entry's name appended.\<close>

definition path_child :: "pure_path \<Rightarrow> string \<Rightarrow> pure_path" where
  "path_child p name = p\<lparr>p_parts := p_parts p @ [name]\<rparr>"

definition starts_with :: "string \<Rightarrow> string \<Rightarrow> bool" where
  "starts_with s pre = (take (length pre) s = pre)"

definition ends_with :: "string \<Rightarrow> string \<Rightarrow> bool" where
  "ends_with s suf = (length suf \<le> length s \<and> drop (length s - length suf) s = suf)"

text \<open>\<open>os.path.join\<close> on two strings (\<open>posixpath\<close>).\<close>

definition os_path_join :: "string \<Rightarrow> string \<Rightarrow> string" where
  "os_path_join a b =
     (if starts_with b ''/'' then b
      else if a = [] \<or> ends_with a ''/'' then a @ b
      else a @ ''/'' @ b)"

text \<open>Lines 141 to 144, \<open>_generate_output_path\<close>.\<close>

definition generate_output_path :: "string \<Rightarrow> string \<Rightarrow> string" where
  "generate_output_path input_path suffix =
     (let path = Path input_path
      in path_str (path_div (path_parent path) (path_stem path @ suffix @ ''.jpg'')))"

subsection \<open>Images, files and the world\<close>

text \<open>
  What the program sees of a decoded image: its Pillow mode (\<open>''RGB''\<close>, \<open>''RGBA''\<close>,
  \<open>''P''\<close>, ...), its size as (width, height), and the format of the file it was read
  from (\<open>None\<close> for an image the library made by converting or resizing).
\<close>

record image =
  img_mode :: string
  img_size :: "int \<times> int"
  img_format :: "string option"

text \<open>A regular file: the image it decodes to, if it does, and its size in bytes.\<close>

record file_entry =
  file_image :: "image option"
  file_bytes :: nat

datatype console_line =
    Optimized string path
  | ErrorProcessing string py_error

text \<open>
  The calls the program makes into its collaborators. \<open>Resize\<close> and \<open>Thumbnail\<close>
  carry the size and the resampling filter; \<open>Save\<close> carries the path, the format,
  the quality, the \<open>optimize\<close> flag and the image that is encoded. \<open>MkdirParents\<close>
  is \<open>Path.mkdir(parents=True, exist_ok=True)\<close>.
\<close>

datatype call =
    MkdirParents path
  | Listdir path
  | Open path
  | Getsize path
  | Convert string
  | Resize "int \<times> int" string
  | Thumbnail "int \<times> int" string
  | Save path string int bool image
  | Print console_line

text \<open>
  The world: the regular files by path, and the trace of the calls made so far, each
  with the exception it raised (\<open>None\<close> when it returned).
\<close>

record world =
  files :: "path \<rightharpoonup> file_entry"
  trace :: "(call \<times> py_error option) list"

text \<open>
  The environment: whether \<open>import PIL\<close> succeeded (\<open>PIL_AVAILABLE\<close>), and the
  decisions of the file system and of the library that the program has no part in.
\<close>

record env =
  pil_available :: bool
  mkdir_error :: "world \<Rightarrow> path \<Rightarrow> py_error option"
  listdir :: "world \<Rightarrow> path \<Rightarrow> py_error + string list"
  resize_error :: "image \<Rightarrow> int \<times> int \<Rightarrow> py_error option"
  thumbnail_result :: "image \<Rightarrow> int \<times> int \<Rightarrow> py_error + image"
  save_error :: "world \<Rightarrow> path \<Rightarrow> image \<Rightarrow> py_error option"
  encoded_bytes :: "image \<Rightarrow> int \<Rightarrow> nat"

subsection \<open>Computations that may raise and that change the world\<close>

type_synonym 'a io = "world \<Rightarrow> (py_error + 'a) \<times> world"

definition io_return :: "'a \<Rightarrow> 'a io" where
  "io_return x = (\<lambda>w. (Inr x, w))"

definition io_raise :: "py_error \<Rightarrow> 'a io" where
  "io_raise e = (\<lambda>w. (Inl e, w))"

definition io_lift :: "py_error + 'a \<Rightarrow> 'a io" where
  "io_lift r = (\<lambda>w. (r, w))"

definition io_bind :: "'a io \<Rightarrow> ('a \<Rightarrow> 'b io) \<Rightarrow> 'b io" where
  "io_bind m f = (\<lambda>w. case m w of (Inl e, w') \<Rightarrow> (Inl e, w') | (Inr x, w') \<Rightarrow> f x w')"

definition outcome :: "py_error + 'a \<Rightarrow> py_error option" where
  "outcome r = (case r of Inl e \<Rightarrow> Some e | Inr _ \<Rightarrow> None)"

definition record_call :: "call \<Rightarrow> py_error option \<Rightarrow> world \<Rightarrow> world" where
  "record_call c r w = w\<lparr>trace := trace w @ [(c, r)]\<rparr>"

text \<open>A call with a given result: the result is returned and the call is recorded.\<close>

definition perform :: "call \<Rightarrow> py_error + 'a \<Rightarrow> 'a io" where
  "perform c r = (\<lambda>w. (r, record_call c (outcome r) w))"

subsection \<open>The library calls\<close>

text \<open>
  \<open>Image.open\<close> raises for a path that is no regular file and for a file that does not
  decode. \<open>convert\<close> changes the mode and \<open>resize\<close> the size; the new image has no
  format. Whether a resize or a save is rejected is the environment's decision; a save
  that is not rejected writes the file, which from then on decodes to the image saved.
  \<open>thumbnail\<close> is left to the environment altogether.
\<close>

definition open_result :: "world \<Rightarrow> path \<Rightarrow> py_error + image" where
  "open_result w p =
     (case files w p of
        None \<Rightarrow> Inl (OSError ''FileNotFoundError'')
      | Some f \<Rightarrow>
          (case file_image f of
             None \<Rightarrow> Inl (OSError ''UnidentifiedImageError'')
           | Some img \<Rightarrow> Inr img))"

definition image_open :: "path \<Rightarrow> image io" where
  "image_open p = (\<lambda>w. perform (Open p) (open_result w p) w)"

definition image_convert :: "image \<Rightarrow> string \<Rightarrow> image io" where
  "image_convert img m = perform (Convert m) (Inr (img\<lparr>img_mode := m, img_format := None\<rparr>))"

definition image_resize :: "env \<Rightarrow> image \<Rightarrow> int \<times> int \<Rightarrow> string \<Rightarrow> image io" where
  "image_resize ev img sz resample =
     perform (Resize sz resample)
       (case resize_error ev img sz of
          Some e \<Rightarrow> Inl e
        | None \<Rightarrow> Inr (img\<lparr>img_size := sz, img_format := None\<rparr>))"

definition image_thumbnail :: "env \<Rightarrow> image \<Rightarrow> int \<times> int \<Rightarrow> string \<Rightarrow> image io" where
  "image_thumbnail ev img sz resample =
     perform (Thumbnail sz resample) (thumbnail_result ev img sz)"

definition image_save :: "env \<Rightarrow> image \<Rightarrow> path \<Rightarrow> string \<Rightarrow> int \<Rightarrow> bool \<Rightarrow> unit io" where
  "image_save ev img p fmt q opt =
     (\<lambda>w. case save_error ev w p img of
             Some e \<Rightarrow> perform (Save p fmt q opt img) (Inl e) w
           | None \<Rightarrow>
               (Inr (),
                (record_call (Save p fmt q opt img) None w)
                  \<lparr>files := (files w)(p \<mapsto>
                     \<lparr>file_image = Some (img\<lparr>img_format := Some fmt\<rparr>),
                      file_bytes = encoded_bytes ev img q\<rparr>)\<rparr>))"

definition os_getsize :: "path \<Rightarrow> nat io" where
  "os_getsize p =
     (\<lambda>w. perform (Getsize p)
             (case files w p of
                None \<Rightarrow> Inl (OSError ''FileNotFoundError'')
              | Some f \<Rightarrow> Inr (file_bytes f)) w)"

definition os_mkdir_parents :: "env \<Rightarrow> path \<Rightarrow> unit io" where
  "os_mkdir_parents ev p =
     (\<lambda>w. perform (MkdirParents p)
             (case mkdir_error ev w p of Some e \<Rightarrow> Inl e | None \<Rightarrow> Inr ()) w)"

definition os_listdir :: "env \<Rightarrow> path \<Rightarrow> string list io" where
  "os_listdir ev p = (\<lambda>w. perform (Listdir p) (listdir ev w p) w)"

definition print_line :: "console_line \<Rightarrow> world \<Rightarrow> world" where
  "print_line l w = record_call (Print l) None w"

subsection \<open>The operations of \<open>ComicImageProcessor\<close>\<close>

definition pillow_required :: py_error where
  "pillow_required = RuntimeError ''Pillow library is required for image processing''"

text \<open>Lines 66 and 67 (and 102 and 103): the mode test and the conversion.\<close>

definition normalize_mode :: "image \<Rightarrow> image io" where
  "normalize_mode img =
     (if img_mode img \<in> {''RGBA'', ''LA'', ''P''} then image_convert img ''RGB''
      else io_return img)"

text \<open>Lines 48 to 81.\<close>

definition optimize_image :: "env \<Rightarrow> policy \<Rightarrow> path \<Rightarrow> path option \<Rightarrow> path io" where
  "optimize_image ev self input_path output_path_arg =
     (if \<not> pil_available ev then io_raise pillow_required
      else
        let output_path =
              (case output_path_arg of
                 None \<Rightarrow> generate_output_path input_path ''_optimized''
               | Some p \<Rightarrow> p)
        in io_bind (image_open input_path) (\<lambda>img0.
           io_bind (normalize_mode img0) (\<lambda>img1.
           io_bind (io_lift (new_size self (img_size img1))) (\<lambda>resized.
           io_bind (case resized of
                      None \<Rightarrow> io_return img1
                    | Some sz \<Rightarrow> image_resize ev img1 sz ''LANCZOS'') (\<lambda>img2.
           io_bind (image_save ev img2 output_path ''JPEG'' (quality self) True) (\<lambda>_.
           io_return output_path))))))"

text \<open>Lines 83 to 108.\<close>

definition create_thumbnail ::
  "env \<Rightarrow> policy \<Rightarrow> path \<Rightarrow> path option \<Rightarrow> int \<times> int \<Rightarrow> path io" where
  "create_thumbnail ev self input_path output_path_arg bounds =
     (if \<not> pil_available ev then io_raise pillow_required
      else
        let output_path =
              (case output_path_arg of
                 None \<Rightarrow> generate_output_path input_path ''_thumb''
               | Some p \<Rightarrow> p)
        in io_bind (image_open input_path) (\<lambda>img0.
           io_bind (normalize_mode img0) (\<lambda>img1.
           io_bind (image_thumbnail ev img1 bounds ''LANCZOS'') (\<lambda>img2.
           io_bind (image_save ev img2 output_path ''JPEG'' 90 True) (\<lambda>_.
           io_return output_path)))))"

definition default_thumbnail_size :: "int \<times> int" where
  "default_thumbnail_size = (400, 600)"

text \<open>Lines 146 to 166.\<close>

record image_info =
  info_width :: int
  info_height :: int
  info_format :: "string option"
  info_mode :: string
  info_file_size :: nat

definition get_image_info :: "env \<Rightarrow> policy \<Rightarrow> path \<Rightarrow> image_info io" where
  "get_image_info ev self image_path =
     (if \<not> pil_available ev then io_raise pillow_required
      else
        io_bind (image_open image_path) (\<lambda>img.
        io_bind (os_getsize image_path) (\<lambda>n.
        io_return \<lparr>info_width = fst (img_size img), info_height = snd (img_size img),
                   info_format = img_format img, info_mode = img_mode img,
                   info_file_size = n\<rparr>)))"

text \<open>
  Lines 110 to 139. The loop of \<open>batch_optimize\<close> over the names that the directory
  iteration yields; each \<open>Exception\<close> of \<open>optimize_image\<close> is caught and printed.
\<close>

definition supported_formats :: "string set" where
  "supported_formats = {''.jpg'', ''.jpeg'', ''.png'', ''.webp'', ''.bmp''}"

fun batch_loop ::
  "env \<Rightarrow> policy \<Rightarrow> pure_path \<Rightarrow> path \<Rightarrow> string list \<Rightarrow> path list \<Rightarrow> world
     \<Rightarrow> path list \<times> world" where
  "batch_loop ev self dir output_dir [] optimized_images w = (optimized_images, w)"
| "batch_loop ev self dir output_dir (entry # rest) optimized_images w =
     (let file_path = path_child dir entry
      in if lower (path_suffix file_path) \<in> supported_formats then
           (let output_path = os_path_join output_dir (path_stem file_path @ ''.jpg'')
            in case optimize_image ev self (path_str file_path) (Some output_path) w of
                 (Inr _, w') \<Rightarrow>
                   batch_loop ev self dir output_dir rest (optimized_images @ [output_path])
                     (print_line (Optimized (path_name file_path) output_path) w')
               | (Inl e, w') \<Rightarrow>
                   batch_loop ev self dir output_dir rest optimized_images
                     (print_line (ErrorProcessing (path_name file_path) e) w'))
         else batch_loop ev self dir output_dir rest optimized_images w)"

definition batch_optimize :: "env \<Rightarrow> policy \<Rightarrow> path \<Rightarrow> path option \<Rightarrow> path list io" where
  "batch_optimize ev self input_dir output_dir_arg =
     (let output_dir =
            (case output_dir_arg of
               None \<Rightarrow> os_path_join input_dir ''optimized''
             | Some d \<Rightarrow> d)
      in io_bind (os_mkdir_parents ev (path_str (Path output_dir))) (\<lambda>_.
         io_bind (os_listdir ev (path_str (Path input_dir))) (\<lambda>entries.
         (\<lambda>w. case batch_loop ev self (Path input_dir) output_dir entries [] w of
                 (optimized_images, w') \<Rightarrow> (Inr optimized_images, w')))))"

subsection \<open>Observations on the trace and on the files\<close>

text \<open>The size of the image stored at a path, when there is one.\<close>

definition stored_size :: "world \<Rightarrow> path \<Rightarrow> (int \<times> int) option" where
  "stored_size w p =
     (case files w p of
        None \<Rightarrow> None
      | Some f \<Rightarrow> map_option img_size (file_image f))"

text \<open>The calls to the resize step.\<close>

fun is_resize :: "call \<times> py_error option \<Rightarrow> bool" where
  "is_resize (Resize sz resample, r) = True"
| "is_resize (c, r) = False"

text \<open>The paths written: the saves that returned, in the order of the trace.\<close>

fun written :: "(call \<times> py_error option) list \<Rightarrow> path list" where
  "written [] = []"
| "written ((Save p fmt q opt img, None) # tr) = p # written tr"
| "written (ev # tr) = written tr"

text \<open>The paths opened, whether the decoder accepted them or not.\<close>

fun opened :: "(call \<times> py_error option) list \<Rightarrow> path list" where
  "opened [] = []"
| "opened ((Open p, r) # tr) = p # opened tr"
| "opened (ev # tr) = opened tr"

text \<open>The directories listed, and the qualities of the saves asked for.\<close>

fun listed :: "(call \<times> py_error option) list \<Rightarrow> path list" where
  "listed [] = []"
| "listed ((Listdir p, r) # tr) = p # listed tr"
| "listed (ev # tr) = listed tr"

fun save_qualities :: "(call \<times> py_error option) list \<Rightarrow> int list" where
  "save_qualities [] = []"
| "save_qualities ((Save p fmt q opt img, r) # tr) = q # save_qualities tr"
| "save_qualities (ev # tr) = save_qualities tr"

text \<open>The calls made between an earlier and a later world.\<close>

definition new_calls :: "world \<Rightarrow> world \<Rightarrow> (call \<times> py_error option) list" where
  "new_calls w w' = drop (length (trace w)) (trace w')"

text \<open>The calls that resize, make a thumbnail of, or encode an image.\<close>

fun is_transform :: "call \<times> py_error option \<Rightarrow> bool" where
  "is_transform (Resize sz resample, r) = True"
| "is_transform (Thumbnail sz resample, r) = True"
| "is_transform (Save p fmt q opt img, r) = True"
| "is_transform (c, r) = False"

text \<open>The images handed to the encoder.\<close>

fun saved_images :: "(call \<times> py_error option) list \<Rightarrow> image list" where
  "saved_images [] = []"
| "saved_images ((Save p fmt q opt img, r) # tr) = img # saved_images tr"
| "saved_images (ev # tr) = saved_images tr"

text \<open>
  Pillow's modes whose pixels carry an alpha channel (\<open>RGBA\<close>, \<open>LA\<close>, \<open>PA\<close>, and
  the premultiplied \<open>RGBa\<close> and \<open>La\<close>) or index a palette (\<open>P\<close>, \<open>PA\<close>), after the
  list of modes in the Pillow handbook.
\<close>

definition alpha_or_palette_modes :: "string set" where
  "alpha_or_palette_modes = {''RGBA'', ''LA'', ''PA'', ''RGBa'', ''La'', ''P''}"

text \<open>
  The paths \<open>pathlib\<close> produces: a root of no, one or two slashes, and parts that are
  not empty, not a single dot and free of slashes.
\<close>

definition valid_part :: "string \<Rightarrow> bool" where
  "valid_part x = (x \<noteq> [] \<and> x \<noteq> ''.'' \<and> CHR ''/'' \<notin> set x)"

definition wf_path :: "pure_path \<Rightarrow> bool" where
  "wf_path q = (p_root q \<in> {[], ''/'', ''//''} \<and> list_all valid_part (p_parts q))"

subsection \<open>The batch, as the specification describes it\<close>




subsection \<open>A concrete environment and concrete worlds\<close>

text \<open>
  The theorems below hold for every environment. To run the operations on concrete
  inputs, \<open>demo_env\<close> fixes one that behaves as Pillow does where it matters: a
  resize to a size with a dimension below 1 is rejected, the JPEG encoder accepts the
  modes it can write and rejects the others, and a thumbnail fits the image into the
  box without enlarging it.
\<close>

definition demo_fit :: "int \<times> int \<Rightarrow> int \<times> int \<Rightarrow> int \<times> int" where
  "demo_fit sz box =
     (if fst sz \<le> fst box \<and> snd sz \<le> snd box then sz
      else if snd sz * fst box \<le> fst sz * snd box
      then (fst box, max 1 (snd sz * fst box div fst sz))
      else (max 1 (fst sz * snd box div snd sz), snd box))"

definition demo_listing :: "path \<Rightarrow> py_error + string list" where
  "demo_listing p =
     (if p = ''comics'' then
        Inr [''page1.png'', ''notes.txt'', ''cover.JPG'', ''broken.webp'', ''extras'',
             ''.jpg'', ''strip.png'']
      else if p = ''d'' then Inr [''a.jpg'', ''a.jpeg'']
      else Inl (OSError ''FileNotFoundError''))"

definition demo_env :: env where
  "demo_env =
     \<lparr>pil_available = True,
      mkdir_error = (\<lambda>w p. None),
      listdir = (\<lambda>w p. demo_listing p),
      resize_error =
        (\<lambda>img sz. if fst sz < 1 \<or> snd sz < 1 then Some (LibraryError ''ValueError'') else None),
      thumbnail_result =
        (\<lambda>img box. Inr (img\<lparr>img_size := demo_fit (img_size img) box, img_format := None\<rparr>)),
      save_error =
        (\<lambda>w p img.
           if img_mode img \<in> {''1'', ''L'', ''RGB'', ''RGBX'', ''CMYK'', ''YCbCr''} then None
           else Some (OSError ''cannot write mode as JPEG'')),
      encoded_bytes = (\<lambda>img q. nat (fst (img_size img) * snd (img_size img) div 10))\<rparr>"

definition demo_image :: "string \<Rightarrow> int \<times> int \<Rightarrow> string \<Rightarrow> file_entry" where
  "demo_image m sz fmt =
     \<lparr>file_image = Some \<lparr>img_mode = m, img_size = sz, img_format = Some fmt\<rparr>,
      file_bytes = 4096\<rparr>"

definition not_an_image :: file_entry where
  "not_an_image = \<lparr>file_image = None, file_bytes = 17\<rparr>"

text \<open>
  A directory of comic pages: a small page, a large cover with an alpha channel, a
  file that does not decode, a text file, a subdirectory, a hidden file and a very
  tall strip one pixel wide.
\<close>

definition comics_world :: world where
  "comics_world =
     \<lparr>files =
        [''comics/page1.png'' \<mapsto> demo_image ''RGB'' (800, 600) ''PNG'',
         ''comics/notes.txt'' \<mapsto> not_an_image,
         ''comics/cover.JPG'' \<mapsto> demo_image ''RGBA'' (4001, 3000) ''PNG'',
         ''comics/broken.webp'' \<mapsto> not_an_image,
         ''comics/.jpg'' \<mapsto> demo_image ''RGB'' (10, 10) ''JPEG'',
         ''comics/strip.png'' \<mapsto> demo_image ''RGB'' (1, 3600) ''PNG'',
         ''comics/scan.tif'' \<mapsto> demo_image ''PA'' (800, 600) ''TIFF''],
      trace = []\<rparr>"

text \<open>
  A directory with two files of the same stem: \<open>a.jpg\<close> does not decode, \<open>a.jpeg\<close>
  does.
\<close>

definition twins_world :: world where
  "twins_world =
     \<lparr>files =
        [''d/a.jpg'' \<mapsto> not_an_image,
         ''d/a.jpeg'' \<mapsto> demo_image ''RGB'' (800, 600) ''JPEG''],
      trace = []\<rparr>"

section \<open>Properties of the rounding\<close>

subsection \<open>Bit lengths and the binary logarithm\<close>

lemma bit_length_0 [simp]: "bit_length 0 = 0"
  by (simp add: bit_length.simps)

lemma bit_length_1 [simp]: "bit_length (Suc 0) = Suc 0"
  by (simp add: bit_length.simps)

lemma bit_length_numeral [simp]:
  "bit_length (numeral k) = Suc (bit_length (numeral k div 2))"
  by (subst bit_length.simps) simp

lemma bit_length_pos: "0 < n \<Longrightarrow> 0 < bit_length n"
  by (subst bit_length.simps) simp

lemma bit_length_bounds:
  "0 < n \<Longrightarrow> 2 ^ (bit_length n - 1) \<le> n \<and> n < 2 ^ bit_length n"
proof (induction n rule: bit_length.induct)
  case (1 n)
  have bl: "bit_length n = Suc (bit_length (n div 2))"
    using "1.prems" by (subst bit_length.simps) simp
  show ?case
  proof (cases "n div 2 = 0")
    case True
    with "1.prems" have "n = 1" by (simp add: div_eq_0_iff) 
    then show ?thesis by (simp add: bl)
  next
    case False
    then have pos: "0 < n div 2" by simp
    have ih: "2 ^ (bit_length (n div 2) - 1) \<le> n div 2 \<and> n div 2 < 2 ^ bit_length (n div 2)"
      using "1.IH" "1.prems" pos by simp
    obtain k where k: "bit_length (n div 2) = Suc k"
      using bit_length_pos [OF pos] by (cases "bit_length (n div 2)") auto
    from ih k have "2 ^ k \<le> n div 2" "n div 2 < 2 ^ Suc k" by simp_all
    then have "2 * 2 ^ k \<le> n" "n < 2 * 2 ^ Suc k" by linarith+
    then show ?thesis by (simp add: bl k)
  qed
qed

lemma ilog2_bounds:
  assumes "0 < x"
  shows "2 powi (ilog2 x) \<le> x \<and> x < 2 powi (ilog2 x + 1)"
proof (cases "1 \<le> x")
  case True
  define n where "n = nat \<lfloor>x\<rfloor>"
  have n: "0 < n" "real n \<le> x" "x < real n + 1"
    using True by (auto simp: n_def)
  have il: "ilog2 x = int (bit_length n) - 1"
    using True by (simp add: ilog2_def n_def)
  obtain k where k: "bit_length n = Suc k"
    using bit_length_pos [OF n(1)] by (cases "bit_length n") auto
  from bit_length_bounds [OF n(1)] k have b: "2 ^ k \<le> n" "n < 2 ^ Suc k" by simp_all
  then have "n + 1 \<le> 2 ^ Suc k" by simp
  from of_nat_mono [OF this, where 'a = real] have "real n + 1 \<le> 2 ^ Suc k" by simp
  then have up: "x < 2 ^ Suc k" using n(3) by linarith
  from of_nat_mono [OF b(1), where 'a = real] have "(2::real) ^ k \<le> real n" by simp
  then have lo: "2 ^ k \<le> x" using n(2) by linarith
  have "ilog2 x = int k" by (simp add: il k)
  moreover have "int k + 1 = int (Suc k)" by simp
  ultimately show ?thesis using lo up by (simp only: power_int_of_nat) 
next
  case False
  define y where "y = 1 / x"
  define n where "n = nat (\<lceil>y\<rceil> - 1)"
  have y1: "1 < y" using False assms by (simp add: y_def)
  then have c: "2 \<le> \<lceil>y\<rceil>" by linarith
  have n: "0 < n" "real n < y" "y \<le> real n + 1"
    using c by (auto simp: n_def) linarith+
  have il: "ilog2 x = - int (bit_length n)"
    using False by (simp add: ilog2_def n_def y_def)
  obtain k where k: "bit_length n = Suc k"
    using bit_length_pos [OF n(1)] by (cases "bit_length n") auto
  from bit_length_bounds [OF n(1)] k have b: "2 ^ k \<le> n" "n < 2 ^ Suc k" by simp_all
  then have "n + 1 \<le> 2 ^ Suc k" by simp
  from of_nat_mono [OF this, where 'a = real] have "real n + 1 \<le> 2 ^ Suc k" by simp
  then have up: "y \<le> 2 ^ Suc k" using n(3) by linarith
  from of_nat_mono [OF b(1), where 'a = real] have "(2::real) ^ k \<le> real n" by simp
  then have lo: "2 ^ k < y" using n(2) by linarith
  have x: "x = 1 / y" using assms by (simp add: y_def)
  have "1 / 2 ^ Suc k \<le> x" unfolding x using up y1 by (simp add: frac_le)
  moreover have "x < 1 / 2 ^ k" unfolding x using lo by (simp add: frac_less2)
  moreover have "(2::real) powi (ilog2 x) = 1 / 2 ^ Suc k"
  proof -
    have "ilog2 x = - int (Suc k)" by (simp add: il k)
    then show ?thesis by (simp only: power_int_minus_divide power_int_of_nat)
  qed
  moreover have "(2::real) powi (ilog2 x + 1) = 1 / 2 ^ k"
  proof -
    have "ilog2 x + 1 = - int k" by (simp add: il k)
    then show ?thesis by (simp only: power_int_minus_divide power_int_of_nat)
  qed
  ultimately show ?thesis by simp
qed

lemma two_powi_less_D: "(2::real) powi a < 2 powi b \<Longrightarrow> a < b"
  using power_int_increasing [of b a "2::real"] by (cases "a < b") auto

lemma round_half_even_of_int [simp]: "round_half_even (of_int n) = n"
  by (simp add: round_half_even_def)

lemma round_half_even_bounds:
  "x - 1 / 2 \<le> of_int (round_half_even x)" "of_int (round_half_even x) \<le> x + 1 / 2"
  unfolding round_half_even_def Let_def by (auto; linarith)+

lemma round_half_even_floor:
  "\<lfloor>x\<rfloor> \<le> round_half_even x" "round_half_even x \<le> \<lfloor>x\<rfloor> + 1"
  unfolding round_half_even_def Let_def by auto

lemma round_half_even_mono:
  assumes "x \<le> y"
  shows "round_half_even x \<le> round_half_even y"
proof (cases "\<lfloor>x\<rfloor> = \<lfloor>y\<rfloor>")
  case True
  with assms have "x - of_int \<lfloor>x\<rfloor> \<le> y - of_int \<lfloor>x\<rfloor>" by simp
  with True show ?thesis
    unfolding round_half_even_def Let_def by auto
next
  case False
  with assms have "\<lfloor>x\<rfloor> < \<lfloor>y\<rfloor>"
    using floor_mono [OF assms] by linarith
  with round_half_even_floor(2) [of x] round_half_even_floor(1) [of y]
  show ?thesis by linarith
qed

lemma round_half_even_le_int: "x \<le> of_int n \<Longrightarrow> round_half_even x \<le> n"
  using round_half_even_mono [of x "of_int n"] by simp

lemma round_half_even_ge_int: "of_int n \<le> x \<Longrightarrow> n \<le> round_half_even x"
  using round_half_even_mono [of "of_int n" x] by simp

lemma two_powi_split:
  assumes "e \<le> j"
  shows "(2::real) powi j = 2 ^ nat (j - e) * 2 powi e"
proof -
  have "(2::real) powi j = 2 powi ((j - e) + e)" by simp
  also have "\<dots> = 2 powi (j - e) * 2 powi e" by (rule power_int_add) simp
  also have "(2::real) powi (j - e) = 2 ^ nat (j - e)"
    using assms by (simp add: power_int_def)
  finally show ?thesis .
qed

lemma grid_unscaled:
  assumes "e \<le> j"
  shows "(of_int (m * 2 ^ nat (j - e)) :: real) * 2 powi e = of_int m * 2 powi j"
  by (simp add: two_powi_split [OF assms])

lemma grid_scaled:
  assumes "e \<le> j"
  shows "of_int m * 2 powi j / 2 powi e = (of_int (m * 2 ^ nat (j - e)) :: real)"
  by (simp add: two_powi_split [OF assms])

lemma round_binary64_le_grid:
  assumes "0 < x" "float_exponent x \<le> j" "x \<le> of_int m * 2 powi j"
  shows "round_binary64 x \<le> of_int m * 2 powi j"
proof -
  define e where "e = float_exponent x"
  have p: "(0::real) < 2 powi e" by simp
  have "x / 2 powi e \<le> of_int m * 2 powi j / 2 powi e"
    using assms(3) p by (simp add: divide_right_mono)
  also have "\<dots> = of_int (m * 2 ^ nat (j - e))"
    using assms(2) by (simp only: grid_scaled e_def)
  finally have "round_half_even (x / 2 powi e) \<le> m * 2 ^ nat (j - e)"
    by (rule round_half_even_le_int)
  then have "(of_int (round_half_even (x / 2 powi e)) :: real) \<le> of_int (m * 2 ^ nat (j - e))"
    by (simp only: of_int_le_iff)
  then have "of_int (round_half_even (x / 2 powi e)) * 2 powi e
               \<le> (of_int (m * 2 ^ nat (j - e)) :: real) * 2 powi e"
    using p by (simp only: mult_le_cancel_right_pos)
  also have "(of_int (m * 2 ^ nat (j - e)) :: real) * 2 powi e = of_int m * 2 powi j"
    using assms(2) by (simp only: grid_unscaled e_def)
  finally show ?thesis using assms(1) by (simp add: round_binary64_def e_def)
qed

lemma round_binary64_ge_grid:
  assumes "0 < x" "float_exponent x \<le> j" "of_int m * 2 powi j \<le> x"
  shows "of_int m * 2 powi j \<le> round_binary64 x"
proof -
  define e where "e = float_exponent x"
  have p: "(0::real) < 2 powi e" by simp
  have "(of_int (m * 2 ^ nat (j - e)) :: real) = of_int m * 2 powi j / 2 powi e"
    using assms(2) by (simp only: grid_scaled e_def)
  also have "\<dots> \<le> x / 2 powi e"
    using assms(3) p by (simp add: divide_right_mono)
  finally have "m * 2 ^ nat (j - e) \<le> round_half_even (x / 2 powi e)"
    by (rule round_half_even_ge_int)
  then have "(of_int (m * 2 ^ nat (j - e)) :: real) \<le> of_int (round_half_even (x / 2 powi e))"
    by (simp only: of_int_le_iff)
  then have le: "(of_int (m * 2 ^ nat (j - e)) :: real) * 2 powi e
               \<le> of_int (round_half_even (x / 2 powi e)) * 2 powi e"
    using p by (simp only: mult_le_cancel_right_pos)
  have "of_int m * 2 powi j = (of_int (m * 2 ^ nat (j - e)) :: real) * 2 powi e"
    using assms(2) by (simp only: grid_unscaled e_def)
  also note le
  also have "of_int (round_half_even (x / 2 powi e)) * 2 powi e = round_binary64 x"
    using assms(1) by (simp add: round_binary64_def e_def)
  finally show ?thesis .
qed

lemma ilog2_less_iff:
  assumes "0 < x"
  shows "ilog2 x < k \<longleftrightarrow> x < 2 powi k"
proof
  assume "ilog2 x < k"
  then have "ilog2 x + 1 \<le> k" by simp
  then have "(2::real) powi (ilog2 x + 1) \<le> 2 powi k"
    by (rule power_int_increasing) simp
  with ilog2_bounds [OF assms] show "x < 2 powi k" by linarith
next
  assume "x < 2 powi k"
  with ilog2_bounds [OF assms] have "(2::real) powi (ilog2 x) < 2 powi k" by linarith
  then show "ilog2 x < k" by (rule two_powi_less_D)
qed

lemma ilog2_mono:
  assumes "0 < x" "x \<le> y"
  shows "ilog2 x \<le> ilog2 y"
proof -
  have y: "0 < y" using assms by linarith
  have "x < 2 powi (ilog2 y + 1)" using ilog2_bounds [OF y] assms(2) by linarith
  then have "ilog2 x < ilog2 y + 1" by (simp only: ilog2_less_iff [OF assms(1)])
  then show ?thesis by simp
qed

lemma float_exponent_pos: "0 < x \<Longrightarrow> float_exponent x = max (ilog2 x - 52) (- 1074)"
  by (simp add: float_exponent_def)

lemma float_exponent_le:
  assumes "0 < x" "x < 2 powi (j + 53)" "- 1074 \<le> j"
  shows "float_exponent x \<le> j"
proof -
  have "ilog2 x < j + 53" using assms(2) by (simp only: ilog2_less_iff [OF assms(1)])
  then show ?thesis using assms(3) by (simp add: float_exponent_pos [OF assms(1)])
qed

lemma float_exponent_mono:
  assumes "0 < x" "x \<le> y"
  shows "float_exponent x \<le> float_exponent y"
proof -
  have y: "0 < y" using assms by linarith
  show ?thesis
    using ilog2_mono [OF assms] by (simp add: float_exponent_pos assms(1) y)
qed

lemma round_binary64_mono_pos:
  assumes "0 < x" "x \<le> y"
  shows "round_binary64 x \<le> round_binary64 y"
proof -
  have y: "0 < y" using assms by linarith
  consider "float_exponent x = float_exponent y" | "float_exponent x < float_exponent y"
    using float_exponent_mono [OF assms] by linarith
  then show ?thesis
  proof cases
    case 1
    define e where "e = float_exponent y"
    have p: "(0::real) < 2 powi e" by simp
    have "x / 2 powi e \<le> y / 2 powi e" using assms(2) p by (simp add: divide_right_mono)
    then have "round_half_even (x / 2 powi e) \<le> round_half_even (y / 2 powi e)"
      by (rule round_half_even_mono)
    then have "(of_int (round_half_even (x / 2 powi e)) :: real)
                 \<le> of_int (round_half_even (y / 2 powi e))"
      by (simp only: of_int_le_iff)
    then have "of_int (round_half_even (x / 2 powi e)) * 2 powi e
                 \<le> (of_int (round_half_even (y / 2 powi e)) :: real) * 2 powi e"
      using p by (simp only: mult_le_cancel_right_pos)
    then show ?thesis using assms(1) y 1 by (simp add: round_binary64_def e_def)
  next
    case 2
    define k where "k = ilog2 y"
    have ey: "float_exponent y = k - 52" and kl: "- 1074 < k - 52"
      using 2 by (auto simp: float_exponent_pos assms(1) y k_def)
    have "ilog2 x < k" using 2 ey by (simp add: float_exponent_pos assms(1))
    then have xk: "x \<le> 2 powi k" using ilog2_less_iff [OF assms(1), of k] by simp
    have ky: "2 powi k \<le> y" using ilog2_bounds [OF y] by (simp add: k_def)
    have "float_exponent x \<le> k" using 2 ey by simp
    from round_binary64_le_grid [OF assms(1) this, of 1] xk
    have a: "round_binary64 x \<le> 2 powi k" by simp
    have "float_exponent y \<le> k" using ey by simp
    from round_binary64_ge_grid [OF y this, of 1] ky
    have "2 powi k \<le> round_binary64 y" by simp
    with a show ?thesis by linarith
  qed
qed

lemma round_half_even_nonneg: "0 \<le> x \<Longrightarrow> 0 \<le> round_half_even x"
  using round_half_even_ge_int [of 0 x] by simp

lemma round_binary64_nonneg:
  assumes "0 \<le> x"
  shows "0 \<le> round_binary64 x"
proof (cases "x = 0")
  case True
  then show ?thesis by (simp add: round_binary64_def)
next
  case False
  have "0 \<le> x / 2 powi float_exponent x" using assms by simp
  then have "0 \<le> round_half_even (x / 2 powi float_exponent x)"
    by (rule round_half_even_nonneg)
  then show ?thesis using False by (simp add: round_binary64_def)
qed

lemma round_binary64_upper:
  assumes "2 powi (- 1022) \<le> x"
  shows "round_binary64 x \<le> x * (1 + 2 powi (- 53))"
proof -
  have pos: "0 < x" using assms by (smt (verit) zero_less_power_int)
  define k where "k = ilog2 x"
  have "\<not> x < 2 powi (- 1022)" using assms by simp
  then have "\<not> k < - 1022" using ilog2_less_iff [OF pos, of "- 1022"] by (simp add: k_def)
  then have e: "float_exponent x = k - 52" by (simp add: float_exponent_pos [OF pos] k_def)
  have p: "(0::real) < 2 powi (k - 52)" by simp
  have "of_int (round_half_even (x / 2 powi (k - 52))) \<le> x / 2 powi (k - 52) + 1 / 2"
    by (rule round_half_even_bounds)
  then have "of_int (round_half_even (x / 2 powi (k - 52))) * 2 powi (k - 52)
               \<le> (x / 2 powi (k - 52) + 1 / 2) * 2 powi (k - 52)"
    using p by (simp only: mult_le_cancel_right_pos)
  also have "\<dots> = x + 2 powi (k - 52) / 2" by (simp add: field_simps)
  also have "2 powi (k - 52) / 2 = (2::real) powi k * 2 powi (- 53)"
  proof -
    have "(2::real) powi (k - 52) = 2 powi (k + (- 53) + 1)" by simp
    also have "\<dots> = 2 powi (k + (- 53)) * 2" by (rule power_int_add_1) simp
    also have "(2::real) powi (k + (- 53)) = 2 powi k * 2 powi (- 53)"
      by (rule power_int_add) simp
    finally show ?thesis by simp
  qed
  also have "x + 2 powi k * 2 powi (- 53) \<le> x + x * 2 powi (- 53)"
    using ilog2_bounds [OF pos] by (simp add: k_def)
  finally show ?thesis using pos by (simp add: round_binary64_def e algebra_simps)
qed

section \<open>The resize arithmetic\<close>

subsection \<open>Exact and small values\<close>

lemma round_binary64_0 [simp]: "round_binary64 0 = 0"
  by (simp add: round_binary64_def)

lemma round_binary64_le_int:
  assumes "0 \<le> x" "x \<le> of_int n" "x < 2 ^ 53"
  shows "round_binary64 x \<le> of_int n"
proof (cases "x = 0")
  case True
  with assms show ?thesis by simp
next
  case False
  with assms have pos: "0 < x" by simp
  have "float_exponent x \<le> 0"
    using assms(3) by (intro float_exponent_le [OF pos]) simp_all
  from round_binary64_le_grid [OF pos this, of n] assms(2) show ?thesis by simp
qed

lemma round_binary64_ge_int:
  assumes "of_int n \<le> x" "0 < x" "x < 2 ^ 53"
  shows "of_int n \<le> round_binary64 x"
proof -
  have "float_exponent x \<le> 0"
    using assms(3) by (intro float_exponent_le [OF assms(2)]) simp_all
  from round_binary64_ge_grid [OF assms(2) this, of n] assms(1) show ?thesis by simp
qed

lemma round_binary64_of_int:
  assumes "0 \<le> n" "n < 2 ^ 53"
  shows "round_binary64 (of_int n) = of_int n"
proof (cases "n = 0")
  case True
  then show ?thesis by simp
next
  case False
  with assms have pos: "(0::real) < of_int n" by simp
  have lt: "(of_int n :: real) < 2 ^ 53"
    using assms(2) by (metis of_int_less_iff of_int_numeral of_int_power)
  have "round_binary64 (of_int n) \<le> of_int n"
    using pos lt by (intro round_binary64_le_int) simp_all
  moreover have "of_int n \<le> round_binary64 (of_int n)"
    using pos lt by (intro round_binary64_ge_int) simp_all
  ultimately show ?thesis by simp
qed

lemma binary64_small:
  assumes "0 \<le> x" "x < 2 ^ 53"
  shows "binary64 x = Some (round_binary64 x)"
proof -
  have "round_binary64 x \<le> of_int (2 ^ 53)"
    using assms by (intro round_binary64_le_int) simp_all
  moreover have "(2::real) ^ 53 < 2 ^ 1024"
    by (rule power_strict_increasing) simp_all
  moreover have "0 \<le> round_binary64 x" using assms(1) by (rule round_binary64_nonneg)
  ultimately show ?thesis by (simp add: binary64_def Let_def)
qed

lemma float_of_int_exact:
  assumes "0 \<le> n" "n < 2 ^ 53"
  shows "float_of_int n = Inr (of_int n)"
proof -
  have lt: "(of_int n :: real) < 2 ^ 53"
    using assms(2) by (metis of_int_less_iff of_int_numeral of_int_power)
  have "binary64 (of_int n) = Some (round_binary64 (of_int n))"
    using assms(1) lt by (intro binary64_small) simp_all
  then show ?thesis by (simp add: float_of_int_def round_binary64_of_int [OF assms])
qed

lemma int_true_div_pos:
  assumes "0 < a" "0 < b" "int_true_div a b = Inr q"
  shows "q = round_binary64 (of_int a / of_int b)" "0 \<le> q"
proof -
  show q: "q = round_binary64 (of_int a / of_int b)"
    using assms by (auto simp: int_true_div_def binary64_def Let_def split: option.splits if_splits)
  have "(0::real) \<le> of_int a / of_int b" using assms by simp
  then show "0 \<le> q" unfolding q by (rule round_binary64_nonneg)
qed





lemma resize_ratio_pos:
  assumes "0 < max_width self" "0 < max_height self" "0 < ow" "0 < oh"
    and "resize_ratio self (ow, oh) = Inr r"
  shows "0 \<le> r" "r \<le> 1"
    "r \<le> round_binary64 (of_int (max_width self) / of_int ow)"
    "r \<le> round_binary64 (of_int (max_height self) / of_int oh)"
proof -
  from assms(5) obtain wr hr where
    wr: "int_true_div (max_width self) ow = Inr wr" and
    hr: "int_true_div (max_height self) oh = Inr hr" and
    r: "r = min wr (min hr 1)"
    by (auto simp: resize_ratio_def split: sum.splits)
  note w = int_true_div_pos [OF assms(1) assms(3) wr]
  note h = int_true_div_pos [OF assms(2) assms(4) hr]
  show "0 \<le> r" using w(2) h(2) by (simp add: r)
  show "r \<le> 1" by (simp add: r)
  show "r \<le> round_binary64 (of_int (max_width self) / of_int ow)"
    using w(1) by (simp add: r)
  show "r \<le> round_binary64 (of_int (max_height self) / of_int oh)"
    using h(1) by (simp add: r)
qed

lemma scaled_dimension:
  assumes "0 < n" "n < 2 ^ 52" "0 \<le> r" "r < 1"
  shows "int_mul_float n r = Inr (Finite (round_binary64 (of_int n * r)))"
    and "int_of_float (Finite (round_binary64 (of_int n * r))) =
           Inr \<lfloor>round_binary64 (of_int n * r)\<rfloor>"
    and "of_int n * r < 2 ^ 53" and "0 \<le> of_int n * r"
proof -
  have nr: "(0::real) < of_int n" using assms(1) by simp
  have "n < 2 ^ 53" using assms(2) by (rule less_trans) simp
  then have f: "float_of_int n = Inr (of_int n)"
    using assms(1) by (intro float_of_int_exact) simp_all
  have nlt: "(of_int n :: real) < 2 ^ 52"
  proof -
    have "(of_int n :: real) < of_int (2 ^ 52)" using assms(2) by (simp only: of_int_less_iff)
    then show ?thesis by simp
  qed
  show x0: "0 \<le> of_int n * r" using assms(3) nr by simp
  have "of_int n * r \<le> of_int n" using assms(4) nr by (simp add: mult_le_cancel_left1)
  with nlt show xlt: "of_int n * r < 2 ^ 53" by simp
  from binary64_small [OF x0 xlt]
  show "int_mul_float n r = Inr (Finite (round_binary64 (of_int n * r)))"
    by (simp add: int_mul_float_def f float_mul_def)
  have "0 \<le> round_binary64 (of_int n * r)" using x0 by (rule round_binary64_nonneg)
  then show "int_of_float (Finite (round_binary64 (of_int n * r))) =
           Inr \<lfloor>round_binary64 (of_int n * r)\<rfloor>"
    by (simp add: int_of_float_def)
qed


subsection \<open>Resized dimensions stay within the policy bounds\<close>

lemmas float_eval = ilog2_def round_half_even_def float_exponent_def round_binary64_def
  binary64_def int_true_div_def float_of_int_def float_mul_def int_mul_float_def
  int_of_float_def resize_ratio_def new_size_def Let_def

text \<open>
  The arithmetic is carried out in floats, and the rounding is visible: with a maximum
  width of 1023, an image 1103 pixels wide is resized to a width of 1022, where the
  exact quotient and product would give 1023.
\<close>

lemma float_truncation_example:
  "new_size \<lparr>max_width = 1023, max_height = 1800, quality = 85\<rparr> (1103, 100)
     = Inr (Some (1022, 92))"
  by (simp add: float_eval)



subsection \<open>Narrow images lose their width\<close>

lemma int_less_real_power:
  assumes "n < 2 ^ k"
  shows "(of_int n :: real) \<le> 2 ^ k - 1"
proof -
  have "n \<le> 2 ^ k - 1" using assms by simp
  then have "(of_int n :: real) \<le> of_int (2 ^ k - 1)" by (simp only: of_int_le_iff)
  then show ?thesis by simp
qed

lemma binary64_bounded:
  assumes "0 \<le> x" "x \<le> 2 ^ 1023"
  shows "binary64 x = Some (round_binary64 x)"
proof (cases "x = 0")
  case True
  then show ?thesis by (simp add: binary64_def)
next
  case False
  with assms have pos: "0 < x" by simp
  have "x < 2 powi (1023 + 53)"
  proof -
    have "(2::real) ^ 1023 < 2 ^ 1076" by (rule power_strict_increasing) simp_all
    with assms(2) show ?thesis by simp
  qed
  then have "float_exponent x \<le> 1023" by (intro float_exponent_le [OF pos]) simp_all
  from round_binary64_le_grid [OF pos this, of 1] assms(2)
  have "round_binary64 x \<le> 2 ^ 1023" by simp
  moreover have "(2::real) ^ 1023 < 2 ^ 1024" by (rule power_strict_increasing) simp_all
  moreover have "0 \<le> round_binary64 x" using assms(1) by (rule round_binary64_nonneg)
  ultimately show ?thesis by (simp add: binary64_def Let_def)
qed

lemma int_true_div_defined:
  assumes "0 \<le> a" "a < 2 ^ 1023" "0 < b"
  shows "int_true_div a b = Inr (round_binary64 (of_int a / of_int b))"
proof -
  have a: "(of_int a :: real) \<le> 2 ^ 1023" using int_less_real_power [OF assms(2)] by simp
  have b: "(1::real) \<le> of_int b" using assms(3) by simp
  have "(of_int a :: real) / of_int b \<le> of_int a / 1"
    using assms(1) b by (intro divide_left_mono) simp_all
  with a have "(of_int a :: real) / of_int b \<le> 2 ^ 1023" by simp
  moreover have "(0::real) \<le> of_int a / of_int b" using assms(1,3) by simp
  ultimately have "binary64 (of_int a / of_int b) = Some (round_binary64 (of_int a / of_int b))"
    by (intro binary64_bounded)
  then show ?thesis using assms(3) by (simp add: int_true_div_def)
qed

text \<open>
  The class of images that claim C10 names: when \<open>orig_w * max_height < orig_h\<close>, the
  new width is 0.
\<close>

lemma narrow_image_zero_width:
  assumes "0 < max_width self" "max_width self < 2 ^ 1023" "0 < max_height self"
    and "0 < ow" "0 < oh" "oh < 2 ^ 52" "ow * max_height self < oh"
  shows "\<exists>nh. new_size self (ow, oh) = Inr (Some (0, nh))"
proof -
  define mh where "mh = max_height self"
  define q :: real where "q = of_int mh / of_int oh"
  define u :: real where "u = 2 powi (- 53)"
  have u: "u = 1 / 2 ^ 53" by (simp add: u_def power_int_minus_divide)
  have mh: "0 < mh" using assms(3) by (simp add: mh_def)
  have ohr: "(0::real) < of_int oh" using assms(5) by simp
  have owr: "(1::real) \<le> of_int ow" using assms(4) by simp
  have "1 * mh \<le> ow * mh" using assms(4) mh by (intro mult_right_mono) simp_all
  then have mhoh: "mh < oh" using assms(7) by (simp add: mh_def)
  have "ow * 1 \<le> ow * mh" using assms(4) mh by (intro mult_left_mono) simp_all
  then have owoh: "ow < oh" using assms(7) by (simp add: mh_def)
  then have ow52: "ow < 2 ^ 52" using assms(6) by simp
  have ohle: "(of_int oh :: real) \<le> 2 ^ 52 - 1" using assms(6) by (rule int_less_real_power)
  have inv: "2 * u < 1 / of_int oh"
  proof -
    have "(1::real) / 2 ^ 52 < 1 / of_int oh"
      using ohr ohle by (intro divide_strict_left_mono) simp_all
    then show ?thesis by (simp add: u)
  qed
  \<comment> \<open>the exact product of the width and the exact height ratio stays below 1\<close>
  have "ow * mh + 1 \<le> oh" using assms(7) by (simp add: mh_def)
  then have "(of_int (ow * mh + 1) :: real) \<le> of_int oh" by (simp only: of_int_le_iff)
  then have prod: "of_int ow * q \<le> 1 - 1 / of_int oh"
    using ohr by (simp add: q_def field_simps)
  have q1: "q \<le> of_int ow * q"
  proof -
    have "0 \<le> q" using mh ohr by (simp add: q_def)
    then have "1 * q \<le> of_int ow * q" using owr by (intro mult_right_mono)
    then show ?thesis by simp
  qed
  have qpos: "0 < q" using mh ohr by (simp add: q_def)
  \<comment> \<open>the two ratios are floats\<close>
  have wr: "int_true_div (max_width self) ow = Inr (round_binary64 (of_int (max_width self) / of_int ow))"
    using assms(1,2,4) by (intro int_true_div_defined) simp_all
  have "mh < 2 ^ 1023"
  proof -
    have "mh < 2 ^ 52" using mhoh assms(6) by simp
    also have "(2::int) ^ 52 < 2 ^ 1023" by (rule power_strict_increasing) simp_all
    finally show ?thesis .
  qed
  then have hr: "int_true_div (max_height self) oh = Inr (round_binary64 q)"
    using mh assms(5) unfolding q_def mh_def by (intro int_true_div_defined) simp_all
  define r where "r = min (round_binary64 (of_int (max_width self) / of_int ow))
                          (min (round_binary64 q) 1)"
  have rr: "resize_ratio self (ow, oh) = Inr r"
    by (simp add: resize_ratio_def wr hr r_def)
  note rp = resize_ratio_pos [OF assms(1,3,4,5) rr]
  \<comment> \<open>the rounded height ratio is close to the exact one\<close>
  have "2 powi (- 1022) \<le> (2::real) powi (- 52)" by (rule power_int_increasing) simp_all
  also have "(2::real) powi (- 52) = 2 * u" by (simp add: u power_int_minus_divide)
  also have "2 * u < 1 / of_int oh" by (rule inv)
  also have "1 / of_int oh \<le> q"
    unfolding q_def using mh ohr by (intro divide_right_mono) simp_all
  finally have "2 powi (- 1022) \<le> q" by simp
  then have up: "round_binary64 q \<le> q * (1 + u)"
    unfolding u_def by (rule round_binary64_upper)
  \<comment> \<open>the product of the width and the ratio stays below the largest float below 1\<close>
  define x where "x = of_int ow * r"
  have x0: "0 \<le> x" using rp(1) owr by (simp add: x_def)
  have "x \<le> of_int ow * round_binary64 q"
    using rp(4) owr by (simp add: x_def q_def mh_def)
  also have "\<dots> \<le> of_int ow * (q * (1 + u))"
    using up owr by (intro mult_left_mono) simp_all
  also have "\<dots> = (of_int ow * q) * (1 + u)" by simp
  also have "\<dots> \<le> (1 - 1 / of_int oh) * (1 + u)"
    using prod by (intro mult_right_mono) (simp_all add: u)
  also have "\<dots> \<le> (1 - 2 * u) * (1 + u)"
    using inv by (intro mult_right_mono) (simp_all add: u)
  also have "\<dots> \<le> 1 - u" by (simp add: u field_simps)
  finally have xu: "x \<le> 1 - u" .
  have r1: "r < 1"
  proof -
    have "r = 1 * r" by simp
    also have "\<dots> \<le> x" unfolding x_def using owr rp(1) by (intro mult_right_mono)
    also have "\<dots> < 1" using xu by (simp add: u)
    finally show ?thesis .
  qed
  have zero: "\<lfloor>round_binary64 x\<rfloor> = 0"
  proof (cases "x = 0")
    case True
    then show ?thesis by simp
  next
    case False
    with x0 have xpos: "0 < x" by simp
    have "x < 2 powi (- 53 + 53)" using xu by (simp add: u)
    then have "float_exponent x \<le> - 53" by (intro float_exponent_le [OF xpos]) simp_all
    moreover have "x \<le> of_int (2 ^ 53 - 1) * 2 powi (- 53)"
      using xu by (simp add: u power_int_minus_divide field_simps)
    ultimately have "round_binary64 x \<le> of_int (2 ^ 53 - 1) * 2 powi (- 53)"
      by (intro round_binary64_le_grid [OF xpos])
    also have "(of_int (2 ^ 53 - 1) :: real) * 2 powi (- 53) < 1"
      by (simp add: power_int_minus_divide)
    finally have "round_binary64 x < 1" .
    moreover have "0 \<le> round_binary64 x" using x0 by (rule round_binary64_nonneg)
    ultimately show ?thesis by (simp add: floor_eq_iff)
  qed
  note sw = scaled_dimension [OF assms(4) ow52 rp(1) r1]
  note sh = scaled_dimension [OF assms(5,6) rp(1) r1]
  have "new_size self (ow, oh) = Inr (Some (0, \<lfloor>round_binary64 (of_int oh * r)\<rfloor>))"
    using zero by (simp add: new_size_def rr r1 sw(1,2) sh(1,2) x_def)
  then show ?thesis by blast
qed

section \<open>Paths\<close>

subsection \<open>Splitting and joining\<close>

lemma split_on_nonempty [simp]: "split_on c s \<noteq> []"
  by (induction s) (auto split: list.splits)

lemma split_on_no_sep: "c \<notin> set s \<Longrightarrow> split_on c s = [s]"
  by (induction s) auto

lemma split_on_elems: "x \<in> set (split_on c s) \<Longrightarrow> c \<notin> set x"
proof (induction s arbitrary: x)
  case Nil
  then show ?case by simp
next
  case (Cons a s)
  show ?case
  proof (cases "a = c")
    case True
    with Cons show ?thesis by auto
  next
    case False
    obtain y ys where sp: "split_on c s = y # ys"
      by (cases "split_on c s") simp_all
    with Cons.prems False have "x = a # y \<or> x \<in> set ys" by simp
    with Cons.IH [of y] Cons.IH [of x] sp False show ?thesis by auto
  qed
qed

lemma split_on_append_part:
  assumes "c \<notin> set x"
  shows "split_on c (x @ c # s) = x # split_on c s"
  using assms by (induction x) (auto simp: split_on_no_sep)

lemma split_on_join:
  assumes "parts \<noteq> []" "\<And>x. x \<in> set parts \<Longrightarrow> c \<notin> set x"
  shows "split_on c (join_with [c] parts) = parts"
  using assms
proof (induction parts)
  case Nil
  then show ?case by simp
next
  case (Cons x xs)
  show ?case
  proof (cases xs)
    case Nil
    with Cons.prems show ?thesis by (simp add: split_on_no_sep)
  next
    case (Cons y ys)
    have "split_on c (join_with [c] xs) = xs"
      using Cons.IH Cons.prems(2) Cons by simp
    moreover have "c \<notin> set x" using Cons.prems(2) by simp
    ultimately show ?thesis using Cons by (simp add: split_on_append_part)
  qed
qed

lemma join_with_last:
  "parts \<noteq> [] \<Longrightarrow> \<exists>pre. join_with sep parts = pre @ last parts"
proof (induction sep parts rule: join_with.induct)
  case (1 sep)
  then show ?case by simp
next
  case (2 sep x)
  then show ?case by simp
next
  case (3 sep x y ys)
  then obtain pre where "join_with sep (y # ys) = pre @ last (y # ys)" by auto
  then have "join_with sep (x # y # ys) = (x @ sep @ pre) @ last (x # y # ys)" by simp
  then show ?case by blast
qed

lemma join_with_hd:
  "parts \<noteq> [] \<Longrightarrow> \<exists>post. join_with sep parts = hd parts @ post"
  by (induction sep parts rule: join_with.induct) auto


subsection \<open>Parsing and printing paths\<close>

lemma path_root_cases: "path_root s \<in> {[], ''/'', ''//''}"
  by (simp add: path_root_def Let_def)

lemma Path_wf: "wf_path (Path s)"
proof -
  have "valid_part x" if "x \<in> set (p_parts (Path s))" for x
    using that split_on_elems [of x "CHR ''/''" s] by (auto simp: Path_def valid_part_def)
  then have "list_all valid_part (p_parts (Path s))" by (simp add: list_all_iff)
  moreover have "p_root (Path s) \<in> {[], ''/'', ''//''}"
    using path_root_cases [of s] by (simp add: Path_def)
  ultimately show ?thesis unfolding wf_path_def by blast
qed

lemma filter_valid_parts:
  "list_all valid_part ps \<Longrightarrow> filter (\<lambda>x. x \<noteq> [] \<and> x \<noteq> ''.'') ps = ps"
  by (induction ps) (auto simp: valid_part_def)

lemma Path_path_str:
  assumes "wf_path q"
  shows "Path (path_str q) = q"
proof (cases "p_parts q")
  case Nil
  with assms show ?thesis
    by (cases q) (auto simp: wf_path_def path_str_def Path_def path_root_def)
next
  case (Cons x xs)
  define J where "J = join_with ''/'' (p_parts q)"
  have valid: "list_all valid_part (p_parts q)" using assms by (simp add: wf_path_def)
  have ne: "p_parts q \<noteq> []" using Cons by simp
  have x: "valid_part x" using valid Cons by simp
  then obtain a as where xa: "x = a # as" "a \<noteq> CHR ''/''"
    by (cases x) (auto simp: valid_part_def)
  from join_with_hd [OF ne, of "''/''"] Cons obtain post where J: "J = (a # as) @ post"
    by (auto simp: J_def xa)
  have sp: "split_on CHR ''/'' J = p_parts q"
    unfolding J_def using valid ne
    by (intro split_on_join) (auto simp: list_all_iff valid_part_def)
  have str: "path_str q = p_root q @ J"
    using ne by (simp add: path_str_def J_def)
  from assms have "p_root q = [] \<or> p_root q = ''/'' \<or> p_root q = ''//''"
    by (simp add: wf_path_def)
  then have "path_root (p_root q @ J) = p_root q \<and>
             filter (\<lambda>x. x \<noteq> [] \<and> x \<noteq> ''.'') (split_on CHR ''/'' (p_root q @ J)) = p_parts q"
  proof (elim disjE)
    assume r: "p_root q = []"
    have "path_root J = []" using xa by (simp add: J path_root_def)
    then show ?thesis using r sp filter_valid_parts [OF valid] by simp
  next
    assume r: "p_root q = ''/''"
    have "path_root (''/'' @ J) = ''/''" using xa by (simp add: J path_root_def)
    moreover have "split_on CHR ''/'' (''/'' @ J) = [] # split_on CHR ''/'' J" by simp
    ultimately show ?thesis using r sp filter_valid_parts [OF valid] by simp
  next
    assume r: "p_root q = ''//''"
    have "path_root (''//'' @ J) = ''//''" using xa by (simp add: J path_root_def)
    moreover have "split_on CHR ''/'' (''//'' @ J) = [] # [] # split_on CHR ''/'' J" by simp
    ultimately show ?thesis using r sp filter_valid_parts [OF valid] by simp
  qed
  then have "p_root (Path (path_str q)) = p_root q" "p_parts (Path (path_str q)) = p_parts q"
    by (simp_all add: Path_def str)
  then show ?thesis by (intro pure_path.equality) simp_all
qed


subsection \<open>The generated output path\<close>

lemma name_stem_no_sep: "c \<notin> set n \<Longrightarrow> c \<notin> set (name_stem n)"
  by (auto simp: name_stem_def split: option.splits dest: in_set_takeD)

lemma path_name_no_slash: "CHR ''/'' \<notin> set (path_name (Path p))"
proof (cases "p_parts (Path p) = []")
  case True
  then show ?thesis by (simp add: path_name_def)
next
  case False
  then have "last (p_parts (Path p)) \<in> set (p_parts (Path p))" by simp
  with Path_wf [of p] have "valid_part (last (p_parts (Path p)))"
    by (simp add: wf_path_def list_all_iff)
  with False show ?thesis by (simp add: path_name_def valid_part_def)
qed

lemma path_stem_no_slash: "CHR ''/'' \<notin> set (path_stem (Path p))"
  unfolding path_stem_def by (rule name_stem_no_sep) (rule path_name_no_slash)

lemma Path_single:
  assumes "CHR ''/'' \<notin> set n" "n \<noteq> []" "n \<noteq> ''.''"
  shows "Path n = \<lparr>p_root = [], p_parts = [n]\<rparr>"
proof -
  from assms obtain a as where n: "n = a # as" "a \<noteq> CHR ''/''" by (cases n) auto
  then have "path_root n = []" by (simp add: path_root_def)
  then show ?thesis using assms by (simp add: Path_def split_on_no_sep)
qed

text \<open>The path that \<open>_generate_output_path\<close> builds, before it is turned into a string.\<close>

lemma generated_path:
  assumes "CHR ''/'' \<notin> set sfx"
  shows "path_div (path_parent (Path p)) (path_stem (Path p) @ sfx @ ''.jpg'')
           = \<lparr>p_root = p_root (Path p),
              p_parts = butlast (p_parts (Path p)) @ [path_stem (Path p) @ sfx @ ''.jpg'']\<rparr>"
    and "wf_path \<lparr>p_root = p_root (Path p),
              p_parts = butlast (p_parts (Path p)) @ [path_stem (Path p) @ sfx @ ''.jpg'']\<rparr>"
proof -
  define child where "child = path_stem (Path p) @ sfx @ ''.jpg''"
  have c: "CHR ''/'' \<notin> set child" "child \<noteq> []" "child \<noteq> ''.''"
    using assms path_stem_no_slash [of p] by (auto simp: child_def append_eq_Cons_conv)
  from Path_single [OF c]
  show "path_div (path_parent (Path p)) (path_stem (Path p) @ sfx @ ''.jpg'')
           = \<lparr>p_root = p_root (Path p),
              p_parts = butlast (p_parts (Path p)) @ [path_stem (Path p) @ sfx @ ''.jpg'']\<rparr>"
    by (simp add: path_div_def path_parent_def child_def Let_def)
  have "list_all valid_part (butlast (p_parts (Path p)))"
    using Path_wf [of p] by (auto simp: wf_path_def list_all_iff dest: in_set_butlastD)
  moreover have "valid_part child" using c by (simp add: valid_part_def)
  moreover have "p_root (Path p) \<in> {[], ''/'', ''//''}"
    using Path_wf [of p] by (simp add: wf_path_def)
  ultimately show "wf_path \<lparr>p_root = p_root (Path p),
              p_parts = butlast (p_parts (Path p)) @ [path_stem (Path p) @ sfx @ ''.jpg'']\<rparr>"
    by (simp add: wf_path_def child_def)
qed

lemma generate_output_path_parse:
  assumes "CHR ''/'' \<notin> set sfx"
  shows "Path (generate_output_path p sfx)
           = \<lparr>p_root = p_root (Path p),
              p_parts = butlast (p_parts (Path p)) @ [path_stem (Path p) @ sfx @ ''.jpg'']\<rparr>"
  using generated_path [OF assms, of p]
  by (simp add: generate_output_path_def Let_def Path_path_str)

lemma generate_output_path_ends:
  assumes "CHR ''/'' \<notin> set sfx"
  shows "ends_with (generate_output_path p sfx) ''.jpg''"
proof -
  define q where "q = \<lparr>p_root = p_root (Path p),
              p_parts = butlast (p_parts (Path p)) @ [path_stem (Path p) @ sfx @ ''.jpg'']\<rparr>"
  have g: "generate_output_path p sfx = path_str q"
    using generated_path(1) [OF assms, of p] by (simp add: generate_output_path_def Let_def q_def)
  have ne: "p_parts q \<noteq> []" by (simp add: q_def)
  from join_with_last [OF ne, of "''/''"] obtain pre where
    "join_with ''/'' (p_parts q) = pre @ path_stem (Path p) @ sfx @ ''.jpg''"
    by (auto simp: q_def)
  then have "path_str q = (p_root q @ pre @ path_stem (Path p) @ sfx) @ ''.jpg''"
    using ne by (simp add: path_str_def)
  then show ?thesis unfolding g by (simp add: ends_with_def)
qed

section \<open>The single-image operations\<close>

lemmas io_defs = io_return_def io_raise_def io_lift_def io_bind_def outcome_def record_call_def
  perform_def open_result_def image_open_def image_convert_def image_resize_def
  image_thumbnail_def image_save_def os_getsize_def os_mkdir_parents_def os_listdir_def
  print_line_def normalize_mode_def

lemmas path_defs = path_root_def Path_def path_str_def path_name_def name_suffix_def
  name_stem_def path_suffix_def path_stem_def path_parent_def path_div_def path_child_def
  starts_with_def ends_with_def os_path_join_def generate_output_path_def lower_def
  ascii_lower_def supported_formats_def

lemmas demo_defs = demo_env_def demo_listing_def demo_fit_def demo_image_def not_an_image_def
  comics_world_def twins_world_def default_policy_def default_thumbnail_size_def

lemmas observation_defs = stored_size_def new_calls_def

subsection \<open>Images within the bounds are not resized\<close>

lemma round_binary64_ge_1:
  assumes "1 \<le> x"
  shows "1 \<le> round_binary64 x"
proof -
  have "round_binary64 (of_int 1) = of_int 1" by (rule round_binary64_of_int) simp_all
  moreover have "round_binary64 1 \<le> round_binary64 x"
    using assms by (intro round_binary64_mono_pos) simp_all
  ultimately show ?thesis by simp
qed

lemma int_true_div_ge_1:
  assumes "0 \<le> b" "b \<le> a" "int_true_div a b = Inr q"
  shows "1 \<le> q"
proof -
  from assms(3) have b0: "b \<noteq> 0" by (auto simp: int_true_div_def)
  with assms(1) have bp: "(0::real) < of_int b" by simp
  from assms(3) b0 have q: "q = round_binary64 (of_int a / of_int b)"
    by (auto simp: int_true_div_def binary64_def Let_def split: option.splits if_splits)
  have "(of_int b :: real) \<le> of_int a" using assms(2) by simp
  then have "(1::real) \<le> of_int a / of_int b" using bp by (simp add: le_divide_eq)
  then show ?thesis unfolding q by (rule round_binary64_ge_1)
qed

lemma resize_ratio_within:
  assumes "0 \<le> iw" "iw \<le> max_width self" "0 \<le> ih" "ih \<le> max_height self"
    and "resize_ratio self (iw, ih) = Inr r"
  shows "r = 1"
proof -
  from assms(5) obtain wr hr where
    wr: "int_true_div (max_width self) iw = Inr wr" and
    hr: "int_true_div (max_height self) ih = Inr hr" and
    r: "r = min wr (min hr 1)"
    by (auto simp: resize_ratio_def split: sum.splits)
  from int_true_div_ge_1 [OF assms(1,2) wr] int_true_div_ge_1 [OF assms(3,4) hr]
  show ?thesis by (simp add: r)
qed

lemma new_size_within:
  assumes "0 \<le> iw" "iw \<le> max_width self" "0 \<le> ih" "ih \<le> max_height self"
  shows "new_size self (iw, ih) \<noteq> Inr (Some sz)"
proof
  assume a: "new_size self (iw, ih) = Inr (Some sz)"
  then obtain r where rr: "resize_ratio self (iw, ih) = Inr r" and "r < 1"
    by (auto simp: new_size_def split: sum.splits if_splits)
  with resize_ratio_within [OF assms rr] show False by simp
qed

lemma stored_size_open:
  "stored_size w p = Some sz \<Longrightarrow> \<exists>img. open_result w p = Inr img \<and> img_size img = sz"
  by (auto simp: stored_size_def open_result_def split: option.splits)

lemma optimize_image_no_resize:
  assumes "stored_size w input_path = Some (iw, ih)"
    and "0 \<le> iw" "iw \<le> max_width self" "0 \<le> ih" "ih \<le> max_height self"
    and "optimize_image ev self input_path output_arg w = (res, w')"
  shows "filter is_resize (trace w') = filter is_resize (trace w)"
    and "res = Inr out \<Longrightarrow> stored_size w' out = Some (iw, ih)"
proof -
  from stored_size_open [OF assms(1)] obtain img where
    img: "open_result w input_path = Inr img" "img_size img = (iw, ih)" by blast
  note ns = new_size_within [OF assms(2-5)]
  have cases: "new_size self (iw, ih) = Inr None \<or> (\<exists>e. new_size self (iw, ih) = Inl e)"
    using ns by (cases "new_size self (iw, ih)") (auto intro: option.exhaust)
  show "filter is_resize (trace w') = filter is_resize (trace w)"
    using assms(6) img cases
    by (auto simp: optimize_image_def io_defs Let_def pillow_required_def
             split: if_splits option.splits sum.splits prod.splits)
  show "res = Inr out \<Longrightarrow> stored_size w' out = Some (iw, ih)"
    using assms(6) img cases
    by (auto simp: optimize_image_def io_defs Let_def stored_size_def
             split: if_splits option.splits sum.splits prod.splits)
qed


lemma new_calls_same [simp]: "new_calls w w = []"
  by (simp add: new_calls_def)

lemma optimize_image_trace:
  assumes "optimize_image ev self p a w = (res, w')"
  shows "\<exists>evs. trace w' = trace w @ evs"
  using assms
  by (auto simp: optimize_image_def io_defs Let_def
           split: if_splits option.splits sum.splits prod.splits)

lemma trace_new_calls:
  assumes "\<exists>evs. trace w' = trace w @ evs"
  shows "trace w' = trace w @ new_calls w w'"
  using assms by (auto simp: new_calls_def)

text \<open>
  Claim C1. For every image whose width is at most \<open>max_width\<close> and whose height is at
  most \<open>max_height\<close> (and neither is negative), the scale factor \<open>min(width_ratio, height_ratio, 1.0)\<close> is
  \<open>1.0\<close> whenever it is computed, \<open>optimize_image\<close> makes no call to the resize step,
  and a file it writes holds an image of the dimensions of the input. Running
  \<open>optimize_image\<close> a second time, on that output, again makes no call to the resize
  step and again writes an image of the same dimensions.
\<close>

theorem optimize_image_within_bounds:
  assumes "stored_size w input_path = Some (iw, ih)"
    and "0 \<le> iw" "iw \<le> max_width self" "0 \<le> ih" "ih \<le> max_height self"
    and "optimize_image ev self input_path output_arg w = (res, w')"
  shows "(\<forall>r. resize_ratio self (iw, ih) = Inr r \<longrightarrow> r = 1) \<and>
         filter is_resize (new_calls w w') = [] \<and>
         (\<forall>out. res = Inr out \<longrightarrow>
            stored_size w' out = Some (iw, ih) \<and>
            (\<forall>arg2 res2 w''. optimize_image ev self out arg2 w' = (res2, w'') \<longrightarrow>
               filter is_resize (new_calls w' w'') = [] \<and>
               (\<forall>out2. res2 = Inr out2 \<longrightarrow> stored_size w'' out2 = Some (iw, ih))))"
proof -
  have once: "filter is_resize (new_calls v v') = [] \<and>
              (\<forall>out. r = Inr out \<longrightarrow> stored_size v' out = Some (iw, ih))"
    if st: "stored_size v p = Some (iw, ih)"
      and run: "optimize_image ev self p a v = (r, v')" for v v' p a r
  proof -
    note nr = optimize_image_no_resize [OF st assms(2-5) run]
    from trace_new_calls [OF optimize_image_trace [OF run]]
    have "filter is_resize (trace v') =
            filter is_resize (trace v) @ filter is_resize (new_calls v v')"
      by simp
    with nr(1) have "filter is_resize (new_calls v v') = []" by simp
    with nr(2) show ?thesis by blast
  qed
  have ratio: "\<forall>r. resize_ratio self (iw, ih) = Inr r \<longrightarrow> r = 1"
    using resize_ratio_within [OF assms(2-5)] by blast
  from once [OF assms(1) assms(6)] have first:
    "filter is_resize (new_calls w w') = []"
    "\<forall>out. res = Inr out \<longrightarrow> stored_size w' out = Some (iw, ih)" by blast+
  have second: "filter is_resize (new_calls w' w'') = [] \<and>
               (\<forall>out2. res2 = Inr out2 \<longrightarrow> stored_size w'' out2 = Some (iw, ih))"
    if "res = Inr out" "optimize_image ev self out arg2 w' = (res2, w'')"
    for out arg2 res2 w''
    using once [OF _ that(2)] first(2) that(1) by blast
  from ratio first second show ?thesis by blast
qed

theorem optimize_image_within_bounds_witness:
  "stored_size comics_world ''comics/page1.png'' = Some (800, 600) \<and>
   800 \<le> max_width default_policy \<and> 600 \<le> max_height default_policy \<and>
   fst (optimize_image demo_env default_policy ''comics/page1.png'' None comics_world)
     = Inr ''comics/page1_optimized.jpg'' \<and>
   filter is_resize (new_calls comics_world
     (snd (optimize_image demo_env default_policy ''comics/page1.png'' None comics_world))) = [] \<and>
   stored_size
     (snd (optimize_image demo_env default_policy ''comics/page1.png'' None comics_world))
     ''comics/page1_optimized.jpg'' = Some (800, 600)"
proof -
  define run where
    "run = optimize_image demo_env default_policy ''comics/page1.png'' None comics_world"
  have st: "stored_size comics_world ''comics/page1.png'' = Some (800, 600)"
    by (simp add: stored_size_def demo_defs)
  have b: "800 \<le> max_width default_policy" "600 \<le> max_height default_policy"
    by (simp_all add: default_policy_def)
  have res: "fst run = Inr ''comics/page1_optimized.jpg''"
    unfolding run_def
    by (simp add: optimize_image_def io_defs path_defs demo_defs float_eval)
  have pair: "optimize_image demo_env default_policy ''comics/page1.png'' None comics_world
                = (fst run, snd run)"
    by (simp add: run_def)
  from optimize_image_within_bounds [OF st _ b(1) _ b(2) pair] res
  have "filter is_resize (new_calls comics_world (snd run)) = []"
    "stored_size (snd run) ''comics/page1_optimized.jpg'' = Some (800, 600)"
    by simp_all
  with st b res show ?thesis unfolding run_def by blast
qed

subsection \<open>The missing library\<close>

lemma missing_dependency:
  assumes "\<not> pil_available ev"
  shows "optimize_image ev self p a w = (Inl pillow_required, w)"
    and "create_thumbnail ev self p a box w = (Inl pillow_required, w)"
    and "get_image_info ev self p w = (Inl pillow_required, w)"
  using assms by (simp_all add: optimize_image_def create_thumbnail_def get_image_info_def io_defs)

subsection \<open>A zero dimension can reach the resize step\<close>

text \<open>
  Claim C10. The truncation to integers does not keep the new dimensions positive.
  With the default policy (bounds 1200 and 1800, both positive) and the image of
  width 1 and height 3600 (both positive, and \<open>orig_w * max_height < orig_h\<close>),
  \<open>new_width = int(original_width * resize_ratio)\<close> is 0, and \<open>optimize_image\<close>
  calls the resize step with the size \<open>(0, 1800)\<close>.
\<close>

theorem zero_width_reaches_resize:
  "0 < max_width default_policy \<and> 0 < max_height default_policy \<and>
   stored_size comics_world ''comics/strip.png'' = Some (1, 3600) \<and>
   1 * max_height default_policy < 3600 \<and>
   new_size default_policy (1, 3600) = Inr (Some (0, 1800)) \<and>
   new_calls comics_world
     (snd (optimize_image demo_env default_policy ''comics/strip.png'' None comics_world))
     = [(Open ''comics/strip.png'', None),
        (Resize (0, 1800) ''LANCZOS'', Some (LibraryError ''ValueError''))]"
  by (simp add: optimize_image_def io_defs path_defs demo_defs float_eval observation_defs)

subsection \<open>The returned path\<close>

text \<open>
  Claim C5 says that the returned path always ends in \<open>.jpg\<close>, also when the caller
  supplies an output path with another extension. It does not: called with the
  output path \<open>out/page1.png\<close>, \<open>optimize_image\<close> returns \<open>out/page1.png\<close>.
\<close>

theorem explicit_output_path_counterexample:
  "fst (optimize_image demo_env default_policy ''comics/page1.png'' (Some ''out/page1.png'')
          comics_world) = Inr ''out/page1.png'' \<and>
   \<not> ends_with ''out/page1.png'' ''.jpg''"
  by (simp add: optimize_image_def io_defs path_defs demo_defs float_eval)

lemma no_slash_optimized: "CHR ''/'' \<notin> set ''_optimized''" "CHR ''/'' \<notin> set ''_thumb''"
  by simp_all

text \<open>
  Claim C5, amended. The path returned by \<open>optimize_image\<close> is the caller's output
  path, unchanged, when one is supplied, whatever its extension; it ends in \<open>.jpg\<close>
  when the output path is omitted and derived from the input path. In both cases the
  last call is the save of the returned path in the JPEG format.
\<close>

theorem optimize_image_returned_path:
  assumes "optimize_image ev self p arg w = (Inr out, w')"
  shows "out = (case arg of None \<Rightarrow> generate_output_path p ''_optimized'' | Some q \<Rightarrow> q) \<and>
         (arg = None \<longrightarrow> ends_with out ''.jpg'') \<and>
         (\<exists>img. last (trace w') = (Save out ''JPEG'' (quality self) True img, None))"
proof -
  have out: "out = (case arg of None \<Rightarrow> generate_output_path p ''_optimized'' | Some q \<Rightarrow> q)"
    using assms
    by (auto simp: optimize_image_def io_defs Let_def
             split: if_splits option.splits sum.splits prod.splits)
  have "\<exists>img. last (trace w') = (Save out ''JPEG'' (quality self) True img, None)"
    using assms
    by (auto simp: optimize_image_def io_defs Let_def
             split: if_splits option.splits sum.splits prod.splits)
  moreover have "ends_with out ''.jpg''" if "arg = None"
    using that out generate_output_path_ends [OF no_slash_optimized(1), of p] by simp
  ultimately show ?thesis using out by blast
qed

theorem optimize_image_returned_path_witness:
  "fst (optimize_image demo_env default_policy ''comics/page1.png'' (Some ''out/page1.png'')
          comics_world) = Inr ''out/page1.png'' \<and>
   last (trace (snd (optimize_image demo_env default_policy ''comics/page1.png''
          (Some ''out/page1.png'') comics_world)))
     = (Save ''out/page1.png'' ''JPEG'' 85 True
          \<lparr>img_mode = ''RGB'', img_size = (800, 600), img_format = Some ''PNG''\<rparr>, None)"
proof -
  define run where "run = optimize_image demo_env default_policy ''comics/page1.png''
          (Some ''out/page1.png'') comics_world"
  have res: "fst run = Inr ''out/page1.png''"
    unfolding run_def by (simp add: optimize_image_def io_defs demo_defs float_eval)
  have pair: "optimize_image demo_env default_policy ''comics/page1.png''
          (Some ''out/page1.png'') comics_world = (Inr ''out/page1.png'', snd run)"
    using res by (simp add: run_def prod_eq_iff)
  from optimize_image_returned_path [OF pair] obtain img where
    l: "last (trace (snd run)) = (Save ''out/page1.png'' ''JPEG'' (quality default_policy) True img, None)"
    by blast
  have "last (trace (snd run)) = (Save ''out/page1.png'' ''JPEG'' 85 True
          \<lparr>img_mode = ''RGB'', img_size = (800, 600), img_format = Some ''PNG''\<rparr>, None)"
    unfolding run_def by (simp add: optimize_image_def io_defs demo_defs float_eval)
  with res l show ?thesis unfolding run_def by blast
qed

subsection \<open>The conversion to RGB\<close>

text \<open>
  Claim C7 says that every image whose colour representation has an alpha channel or
  a palette is converted to RGB. The program tests the mode against \<open>RGBA\<close>, \<open>LA\<close>
  and \<open>P\<close> only: an image in Pillow's mode \<open>PA\<close> (a palette with alpha) is handed to
  the thumbnail and encode steps as it is, by both operations.
\<close>

theorem unconverted_mode_counterexample:
  "''PA'' \<in> alpha_or_palette_modes \<and>
   open_result comics_world ''comics/scan.tif''
     = Inr \<lparr>img_mode = ''PA'', img_size = (800, 600), img_format = Some ''TIFF''\<rparr> \<and>
   new_calls comics_world
     (snd (optimize_image demo_env default_policy ''comics/scan.tif'' None comics_world))
     = [(Open ''comics/scan.tif'', None),
        (Save ''comics/scan_optimized.jpg'' ''JPEG'' 85 True
           \<lparr>img_mode = ''PA'', img_size = (800, 600), img_format = Some ''TIFF''\<rparr>,
         Some (OSError ''cannot write mode as JPEG''))] \<and>
   new_calls comics_world
     (snd (create_thumbnail demo_env default_policy ''comics/scan.tif'' None
             default_thumbnail_size comics_world))
     = [(Open ''comics/scan.tif'', None),
        (Thumbnail (400, 600) ''LANCZOS'', None),
        (Save ''comics/scan_thumb.jpg'' ''JPEG'' 90 True
           \<lparr>img_mode = ''PA'', img_size = (400, 300), img_format = None\<rparr>,
         Some (OSError ''cannot write mode as JPEG''))]"
  by (simp add: optimize_image_def create_thumbnail_def io_defs path_defs demo_defs float_eval
        observation_defs alpha_or_palette_modes_def)

text \<open>
  Claim C7, amended. For every decoded input image whose mode is \<open>RGBA\<close>, \<open>LA\<close> or
  \<open>P\<close>, \<open>optimize_image\<close> and \<open>create_thumbnail\<close> convert it to \<open>RGB\<close> right after
  opening it and before the resize, thumbnail and encode steps, which are the only
  calls that follow; what \<open>optimize_image\<close> then hands to the encoder is in mode
  \<open>RGB\<close>. An image in any other mode is not converted.
\<close>

theorem mode_conversion_first:
  assumes "pil_available ev" "open_result w p = Inr img"
    and "optimize_image ev self p a w = (res, w')"
    and "create_thumbnail ev self p a2 box w = (res2, w2)"
  shows "(\<exists>rest. new_calls w w' =
            (Open p, None) #
            (if img_mode img \<in> {''RGBA'', ''LA'', ''P''} then [(Convert ''RGB'', None)] else [])
            @ rest \<and>
            list_all is_transform rest \<and>
            (img_mode img \<in> {''RGBA'', ''LA'', ''P''} \<longrightarrow>
               list_all (\<lambda>i. img_mode i = ''RGB'') (saved_images rest))) \<and>
         (\<exists>rest. new_calls w w2 =
            (Open p, None) #
            (if img_mode img \<in> {''RGBA'', ''LA'', ''P''} then [(Convert ''RGB'', None)] else [])
            @ rest \<and>
            list_all is_transform rest)"
proof -
  have "\<exists>rest. new_calls w w' =
            (Open p, None) #
            (if img_mode img \<in> {''RGBA'', ''LA'', ''P''} then [(Convert ''RGB'', None)] else [])
            @ rest \<and>
            list_all is_transform rest \<and>
            (img_mode img \<in> {''RGBA'', ''LA'', ''P''} \<longrightarrow>
               list_all (\<lambda>i. img_mode i = ''RGB'') (saved_images rest))"
    using assms(1-3)
    by (auto simp: optimize_image_def io_defs Let_def new_calls_def
             split: if_splits option.splits sum.splits prod.splits)
  moreover have "\<exists>rest. new_calls w w2 =
            (Open p, None) #
            (if img_mode img \<in> {''RGBA'', ''LA'', ''P''} then [(Convert ''RGB'', None)] else [])
            @ rest \<and>
            list_all is_transform rest"
    using assms(1,2,4)
    by (auto simp: create_thumbnail_def io_defs Let_def new_calls_def
             split: if_splits option.splits sum.splits prod.splits)
  ultimately show ?thesis by blast
qed


theorem mode_conversion_first_witness:
  "pil_available demo_env \<and>
   open_result comics_world ''comics/cover.JPG''
     = Inr \<lparr>img_mode = ''RGBA'', img_size = (4001, 3000), img_format = Some ''PNG''\<rparr> \<and>
   (\<exists>rest. new_calls comics_world
        (snd (optimize_image demo_env default_policy ''comics/cover.JPG'' None comics_world))
        = (Open ''comics/cover.JPG'', None) # (Convert ''RGB'', None) # rest \<and>
      list_all is_transform rest \<and>
      list_all (\<lambda>i. img_mode i = ''RGB'') (saved_images rest)) \<and>
   (\<exists>rest. new_calls comics_world
        (snd (create_thumbnail demo_env default_policy ''comics/cover.JPG'' None
                default_thumbnail_size comics_world))
        = (Open ''comics/cover.JPG'', None) # (Convert ''RGB'', None) # rest \<and>
      list_all is_transform rest)"
proof -
  define run1 where
    "run1 = optimize_image demo_env default_policy ''comics/cover.JPG'' None comics_world"
  define run2 where
    "run2 = create_thumbnail demo_env default_policy ''comics/cover.JPG'' None
              default_thumbnail_size comics_world"
  have h1: "pil_available demo_env" by (simp add: demo_env_def)
  have h2: "open_result comics_world ''comics/cover.JPG''
     = Inr \<lparr>img_mode = ''RGBA'', img_size = (4001, 3000), img_format = Some ''PNG''\<rparr>"
    by (simp add: open_result_def demo_defs)
  have p1: "optimize_image demo_env default_policy ''comics/cover.JPG'' None comics_world
              = (fst run1, snd run1)" by (simp add: run1_def)
  have p2: "create_thumbnail demo_env default_policy ''comics/cover.JPG'' None
              default_thumbnail_size comics_world = (fst run2, snd run2)"
    by (simp add: run2_def)
  from mode_conversion_first [OF h1 h2 p1 p2] h1 h2
  show ?thesis unfolding run1_def run2_def by simp
qed

subsection \<open>The quality of thumbnails\<close>

text \<open>
  Claim C8. \<open>create_thumbnail\<close> encodes at the fixed quality 90, whatever the quality
  of the processor's policy, for every input: every save it asks for is at quality
  90, and a call that returns has asked for exactly one.
\<close>

theorem thumbnail_quality_fixed:
  assumes "create_thumbnail ev self p a box w = (res, w')"
  shows "set (save_qualities (new_calls w w')) \<subseteq> {90} \<and>
         (\<forall>out. res = Inr out \<longrightarrow> save_qualities (new_calls w w') = [90])"
  using assms
  by (auto simp: create_thumbnail_def io_defs Let_def new_calls_def
           split: if_splits option.splits sum.splits prod.splits)

theorem thumbnail_quality_fixed_witness:
  "fst (create_thumbnail demo_env \<lparr>max_width = 1200, max_height = 1800, quality = 10\<rparr>
          ''comics/cover.JPG'' None default_thumbnail_size comics_world)
     = Inr ''comics/cover_thumb.jpg'' \<and>
   save_qualities (new_calls comics_world
     (snd (create_thumbnail demo_env \<lparr>max_width = 1200, max_height = 1800, quality = 10\<rparr>
          ''comics/cover.JPG'' None default_thumbnail_size comics_world))) = [90]"
proof -
  define run where
    "run = create_thumbnail demo_env \<lparr>max_width = 1200, max_height = 1800, quality = 10\<rparr>
          ''comics/cover.JPG'' None default_thumbnail_size comics_world"
  have res: "fst run = Inr ''comics/cover_thumb.jpg''"
    unfolding run_def by (simp add: create_thumbnail_def io_defs path_defs demo_defs Let_def)
  have pair: "create_thumbnail demo_env \<lparr>max_width = 1200, max_height = 1800, quality = 10\<rparr>
          ''comics/cover.JPG'' None default_thumbnail_size comics_world = (fst run, snd run)"
    by (simp add: run_def)
  from thumbnail_quality_fixed [OF pair] res
  have "save_qualities (new_calls comics_world (snd run)) = [90]" by simp
  with res show ?thesis unfolding run_def by blast
qed

subsection \<open>The default output paths\<close>

lemma path_parent_sibling:
  "path_parent \<lparr>p_root = p_root q, p_parts = butlast (p_parts q) @ [c]\<rparr> = path_parent q"
  by (cases q) (simp add: path_parent_def)

text \<open>
  Claim C9. When \<open>output_path\<close> is omitted, the output path is derived from the input
  path alone: it is the string of \<open>parent / (stem + suffix + '.jpg')\<close>, it lies in the
  directory of the input (the two paths have the same parent), its name is the stem
  of the input's name followed by the suffix and \<open>.jpg\<close>, and it is the one path
  written. The suffix is \<open>_optimized\<close> for \<open>optimize_image\<close> and \<open>_thumb\<close> for
  \<open>create_thumbnail\<close>.
\<close>

theorem default_output_paths:
  assumes "optimize_image ev self p None w = (Inr out, w')"
    and "create_thumbnail ev self p None box v = (Inr out2, v')"
  shows "out = path_str (path_div (path_parent (Path p)) (path_stem (Path p) @ ''_optimized.jpg'')) \<and>
         path_parent (Path out) = path_parent (Path p) \<and>
         path_name (Path out) = path_stem (Path p) @ ''_optimized.jpg'' \<and>
         written (new_calls w w') = [out] \<and>
         out2 = path_str (path_div (path_parent (Path p)) (path_stem (Path p) @ ''_thumb.jpg'')) \<and>
         path_parent (Path out2) = path_parent (Path p) \<and>
         path_name (Path out2) = path_stem (Path p) @ ''_thumb.jpg'' \<and>
         written (new_calls v v') = [out2]"
proof -
  have o1: "out = generate_output_path p ''_optimized''"
    and w1: "written (new_calls w w') = [out]"
    using assms(1)
    by (auto simp: optimize_image_def io_defs Let_def new_calls_def
             split: if_splits option.splits sum.splits prod.splits)
  have o2: "out2 = generate_output_path p ''_thumb''"
    and w2: "written (new_calls v v') = [out2]"
    using assms(2)
    by (auto simp: create_thumbnail_def io_defs Let_def new_calls_def
             split: if_splits option.splits sum.splits prod.splits)
  have g: "generate_output_path p sfx =
       path_str (path_div (path_parent (Path p)) (path_stem (Path p) @ sfx @ ''.jpg''))" for sfx
    by (simp add: generate_output_path_def Let_def)
  have s1:
    "generate_output_path p ''_optimized'' =
       path_str (path_div (path_parent (Path p)) (path_stem (Path p) @ ''_optimized.jpg''))"
    using g [of "''_optimized''"] by simp
  have s2:
    "generate_output_path p ''_thumb'' =
       path_str (path_div (path_parent (Path p)) (path_stem (Path p) @ ''_thumb.jpg''))"
    using g [of "''_thumb''"] by simp
  have par1: "path_parent (Path (generate_output_path p ''_optimized'')) = path_parent (Path p)"
    unfolding generate_output_path_parse [OF no_slash_optimized(1)] by (rule path_parent_sibling)
  have par2: "path_parent (Path (generate_output_path p ''_thumb'')) = path_parent (Path p)"
    unfolding generate_output_path_parse [OF no_slash_optimized(2)] by (rule path_parent_sibling)
  have nam1: "path_name (Path (generate_output_path p ''_optimized'')) =
       path_stem (Path p) @ ''_optimized.jpg''"
    unfolding generate_output_path_parse [OF no_slash_optimized(1)] by (simp add: path_name_def)
  have nam2: "path_name (Path (generate_output_path p ''_thumb'')) =
       path_stem (Path p) @ ''_thumb.jpg''"
    unfolding generate_output_path_parse [OF no_slash_optimized(2)] by (simp add: path_name_def)
  show ?thesis
    unfolding o1 o2 using s1 s2 par1 par2 nam1 nam2 w1 [unfolded o1] w2 [unfolded o2] by blast
qed

theorem default_output_paths_witness:
  "fst (optimize_image demo_env default_policy ''comics/page1.png'' None comics_world)
     = Inr ''comics/page1_optimized.jpg'' \<and>
   fst (create_thumbnail demo_env default_policy ''comics/page1.png'' None
          default_thumbnail_size comics_world)
     = Inr ''comics/page1_thumb.jpg'' \<and>
   path_parent (Path ''comics/page1_optimized.jpg'') = path_parent (Path ''comics/page1.png'') \<and>
   path_name (Path ''comics/page1_thumb.jpg'') = path_stem (Path ''comics/page1.png'') @ ''_thumb.jpg'' \<and>
   written (new_calls comics_world
     (snd (optimize_image demo_env default_policy ''comics/page1.png'' None comics_world)))
     = [''comics/page1_optimized.jpg'']"
proof -
  define run1 where
    "run1 = optimize_image demo_env default_policy ''comics/page1.png'' None comics_world"
  define run2 where
    "run2 = create_thumbnail demo_env default_policy ''comics/page1.png'' None
              default_thumbnail_size comics_world"
  have r1: "fst run1 = Inr ''comics/page1_optimized.jpg''"
    unfolding run1_def
    by (simp add: optimize_image_def io_defs path_defs demo_defs float_eval)
  have r2: "fst run2 = Inr ''comics/page1_thumb.jpg''"
    unfolding run2_def
    by (simp add: create_thumbnail_def io_defs path_defs demo_defs Let_def)
  have p1: "optimize_image demo_env default_policy ''comics/page1.png'' None comics_world
              = (Inr ''comics/page1_optimized.jpg'', snd run1)"
    using r1 by (simp add: run1_def prod_eq_iff)
  have p2: "create_thumbnail demo_env default_policy ''comics/page1.png'' None
              default_thumbnail_size comics_world = (Inr ''comics/page1_thumb.jpg'', snd run2)"
    using r2 by (simp add: run2_def prod_eq_iff)
  from default_output_paths [OF p1 p2] have
    "path_parent (Path ''comics/page1_optimized.jpg'') = path_parent (Path ''comics/page1.png'')"
    "path_name (Path ''comics/page1_thumb.jpg'') =
       path_stem (Path ''comics/page1.png'') @ ''_thumb.jpg''"
    "written (new_calls comics_world (snd run1)) = [''comics/page1_optimized.jpg'']"
    by blast+
  with r1 r2 show ?thesis unfolding run1_def run2_def by blast
qed

subsection \<open>The size handed to the resize step\<close>

text \<open>
  The one resize call that \<open>optimize_image\<close> can make is made with the size that
  \<open>new_size\<close> computes from the size of the decoded image.
\<close>

lemma optimize_image_resize_call:
  assumes "open_result w p = Inr img"
    and "optimize_image ev self p a w = (res, w')"
    and "(Resize sz resample, r) \<in> set (new_calls w w')"
  shows "new_size self (img_size img) = Inr (Some sz)"
  using assms
  by (auto simp: optimize_image_def io_defs Let_def new_calls_def
           split: if_splits option.splits sum.splits prod.splits)

section \<open>The batch\<close>

subsection \<open>The loop and its trace\<close>

lemma written_append [simp]: "written (xs @ ys) = written xs @ written ys"
  by (induction xs rule: written.induct) simp_all

lemma listed_append [simp]: "listed (xs @ ys) = listed xs @ listed ys"
  by (induction xs rule: listed.induct) simp_all

lemma opened_append [simp]: "opened (xs @ ys) = opened xs @ opened ys"
  by (induction xs rule: opened.induct) simp_all

lemma path_child_name [simp]:
  "path_name (path_child d n) = n" "path_suffix (path_child d n) = name_suffix n"
  "path_stem (path_child d n) = name_stem n"
  by (simp_all add: path_child_def path_name_def path_suffix_def path_stem_def)






subsection \<open>A failing file does not stop the batch\<close>




subsection \<open>The batch without the imaging library\<close>

lemma batch_loop_without_library:
  assumes "\<not> pil_available ev" "batch_loop ev self dir out entries acc w = (res, w')"
  shows "res = acc"
  using assms
  by (induction entries arbitrary: w) (auto simp: missing_dependency Let_def split: if_splits)

lemma batch_optimize_without_library:
  assumes "\<not> pil_available ev"
    and "mkdir_error ev w (path_str (Path out)) = None"
    and "out = (case a of None \<Rightarrow> os_path_join d ''optimized'' | Some x \<Rightarrow> x)"
    and "listdir ev (record_call (MkdirParents (path_str (Path out))) None w)
           (path_str (Path d)) = Inr entries"
  shows "fst (batch_optimize ev self d a w) = Inr []"
  using assms(2,4) batch_loop_without_library [OF assms(1), of self "Path d" out entries "[]"]
  unfolding assms(3)
  by (auto simp: batch_optimize_def io_defs Let_def split: option.splits sum.splits prod.splits)

text \<open>
  Claim C4 says that every processing operation fails at once with the
  dependency-unavailable condition when the imaging library is missing.
  \<open>optimize_image\<close>, \<open>create_thumbnail\<close> and \<open>get_image_info\<close> do (lemma
  \<open>missing_dependency\<close>). \<open>batch_optimize\<close> has no such test: it creates the output
  directory, lists the input directory, catches the \<open>RuntimeError\<close> of
  \<open>optimize_image\<close> for each selected file, prints it, and returns the empty list.
\<close>

theorem batch_without_library:
  "fst (batch_optimize (demo_env\<lparr>pil_available := False\<rparr>) default_policy ''comics'' None
          comics_world) = Inr [] \<and>
   new_calls comics_world
     (snd (batch_optimize (demo_env\<lparr>pil_available := False\<rparr>) default_policy ''comics'' None
             comics_world))
     = [(MkdirParents ''comics/optimized'', None),
        (Listdir ''comics'', None),
        (Print (ErrorProcessing ''page1.png'' pillow_required), None),
        (Print (ErrorProcessing ''cover.JPG'' pillow_required), None),
        (Print (ErrorProcessing ''broken.webp'' pillow_required), None),
        (Print (ErrorProcessing ''strip.png'' pillow_required), None)]"
  by (simp add: batch_optimize_def optimize_image_def io_defs path_defs demo_defs
        observation_defs Let_def)

subsection \<open>What the batch selects and where it writes\<close>




end
